theory Spec2Isabelle
  imports Complex_Main "HOL-Library.Multiset"
begin

section \<open>JavaScript numbers and dates\<close>

text \<open>
  A JavaScript number is an IEEE 754 double: a finite value, modelled as the real it
  denotes, or one of the three non-finite values. Negative zero is identified with zero:
  every zero divisor in the source is a difference \<open>x - x\<close> or a product with the factor
  \<open>0\<close>, hence the positive zero, and no result is tested for its sign bit.

  The operations \<open>js_add\<close>, \<open>js_sub\<close>, \<open>js_mul\<close> and \<open>js_div\<close> are the exact ones. They
  serve the curves whose branches compare time values only, which are integers below
  \<open>2 ^ 53\<close> and hence exact; there rounding moves a returned value by a unit in the last
  place and changes no branch. The accumulator curve compares rounded quotients with
  thresholds, so its arithmetic is the rounded one: \<open>fl_add\<close>, \<open>fl_sub\<close>, \<open>fl_mul\<close> and
  \<open>fl_div\<close> round the exact result with \<open>fl\<close>.
\<close>

datatype jsnum = Fin real | PosInf | NegInf | NaN

definition js_div :: "real \<Rightarrow> real \<Rightarrow> jsnum" where
  "js_div a b =
     (if b \<noteq> 0 then Fin (a / b)
      else if 0 < a then PosInf else if a < 0 then NegInf else NaN)"

fun js_neg :: "jsnum \<Rightarrow> jsnum" where
  "js_neg (Fin a) = Fin (- a)"
| "js_neg PosInf = NegInf"
| "js_neg NegInf = PosInf"
| "js_neg NaN = NaN"

fun js_add :: "jsnum \<Rightarrow> jsnum \<Rightarrow> jsnum" where
  "js_add (Fin a) (Fin b) = Fin (a + b)"
| "js_add NaN _ = NaN"
| "js_add _ NaN = NaN"
| "js_add PosInf NegInf = NaN"
| "js_add NegInf PosInf = NaN"
| "js_add PosInf _ = PosInf"
| "js_add _ PosInf = PosInf"
| "js_add NegInf _ = NegInf"
| "js_add _ NegInf = NegInf"

definition js_sub :: "jsnum \<Rightarrow> jsnum \<Rightarrow> jsnum" where
  "js_sub a b = js_add a (js_neg b)"

fun js_mul :: "jsnum \<Rightarrow> jsnum \<Rightarrow> jsnum" where
  "js_mul (Fin a) (Fin b) = Fin (a * b)"
| "js_mul NaN _ = NaN"
| "js_mul _ NaN = NaN"
| "js_mul (Fin a) PosInf = (if a = 0 then NaN else if 0 < a then PosInf else NegInf)"
| "js_mul (Fin a) NegInf = (if a = 0 then NaN else if 0 < a then NegInf else PosInf)"
| "js_mul PosInf (Fin b) = (if b = 0 then NaN else if 0 < b then PosInf else NegInf)"
| "js_mul NegInf (Fin b) = (if b = 0 then NaN else if 0 < b then NegInf else PosInf)"
| "js_mul PosInf PosInf = PosInf"
| "js_mul NegInf NegInf = PosInf"
| "js_mul PosInf NegInf = NegInf"
| "js_mul NegInf PosInf = NegInf"

text \<open>The comparison \<open>a < b\<close>: false as soon as one side is \<open>NaN\<close>.\<close>

fun js_lt :: "jsnum \<Rightarrow> jsnum \<Rightarrow> bool" where
  "js_lt (Fin a) (Fin b) = (a < b)"
| "js_lt NaN _ = False"
| "js_lt _ NaN = False"
| "js_lt _ NegInf = False"
| "js_lt PosInf _ = False"
| "js_lt NegInf _ = True"
| "js_lt _ PosInf = True"

definition js_gt :: "jsnum \<Rightarrow> jsnum \<Rightarrow> bool" where
  "js_gt a b = js_lt b a"

text \<open>Strict equality \<open>a === b\<close> on numbers: \<open>NaN\<close> equals nothing.\<close>

definition js_eq :: "jsnum \<Rightarrow> jsnum \<Rightarrow> bool" where
  "js_eq a b = (a \<noteq> NaN \<and> a = b)"

text \<open>\<open>Math.pow(b, k)\<close> for a finite exponent \<open>k\<close>.\<close>

definition js_pow :: "jsnum \<Rightarrow> real \<Rightarrow> jsnum" where
  "js_pow b k =
     (if k = 0 then Fin 1
      else case b of
        NaN \<Rightarrow> NaN
      | Fin x \<Rightarrow>
          (if 0 < x then Fin (x powr k)
           else if x = 0 then (if 0 < k then Fin 0 else PosInf)
           else if k = of_int \<lfloor>k\<rfloor>
             then Fin (if 0 < k then x ^ nat \<lfloor>k\<rfloor> else 1 / x ^ nat \<lfloor>- k\<rfloor>)
             else NaN)
      | PosInf \<Rightarrow> (if 0 < k then PosInf else Fin 0)
      | NegInf \<Rightarrow>
          (if 0 < k then (if k = of_int \<lfloor>k\<rfloor> \<and> odd \<lfloor>k\<rfloor> then NegInf else PosInf)
           else Fin 0))"

text \<open>
  Rounding to the nearest double, ties to even. A double has 53 significant bits; its
  exponent ranges from \<open>-1022\<close>, below which the subnormal numbers keep the spacing
  \<open>2 ^ -1074\<close>, to \<open>1023\<close>, above which the rounded result is infinite. \<open>bitlen n\<close> is the
  number of binary digits of \<open>n\<close>, \<open>floorLog2 x\<close> the integer \<open>e\<close> with
  \<open>2 ^ e \<le> \<bar>x\<bar> < 2 ^ (e + 1)\<close>, \<open>pow2 k\<close> the power \<open>2 ^ k\<close> and \<open>roundEven y\<close> the integer nearest to
  \<open>y\<close>, the even one of two that are equally near.
\<close>

fun bitlen :: "nat \<Rightarrow> nat" where
  "bitlen n = (if n = 0 then 0 else Suc (bitlen (n div 2)))"

declare bitlen.simps [simp del]

definition floorLog2 :: "real \<Rightarrow> int" where
  "floorLog2 x =
     (if 1 \<le> \<bar>x\<bar> then int (bitlen (nat \<lfloor>\<bar>x\<bar>\<rfloor>)) - 1
      else - int (bitlen (nat (\<lceil>1 / \<bar>x\<bar>\<rceil> - 1))))"

definition pow2 :: "int \<Rightarrow> real" where
  "pow2 k = (if 0 \<le> k then 2 ^ nat k else 1 / 2 ^ nat (- k))"

definition roundEven :: "real \<Rightarrow> int" where
  "roundEven y =
     (let n = \<lfloor>y\<rfloor>; r = y - of_int n
      in if r < 1 / 2 then n
         else if 1 / 2 < r then n + 1
         else if even n then n else n + 1)"

definition fl :: "real \<Rightarrow> jsnum" where
  "fl x =
     (if x = 0 then Fin 0
      else
        (let e = max (floorLog2 x) (- 1022);
             ulp = pow2 (e - 52);
             y = of_int (roundEven (x / ulp)) * ulp
         in if 2 ^ 1024 \<le> \<bar>y\<bar> then (if 0 < x then PosInf else NegInf) else Fin y))"

fun js_round :: "jsnum \<Rightarrow> jsnum" where
  "js_round (Fin x) = fl x"
| "js_round PosInf = PosInf"
| "js_round NegInf = NegInf"
| "js_round NaN = NaN"

text \<open>The exact quotient of two numbers, one of which may be infinite.\<close>

fun js_quot :: "jsnum \<Rightarrow> jsnum \<Rightarrow> jsnum" where
  "js_quot (Fin a) (Fin b) = js_div a b"
| "js_quot NaN _ = NaN"
| "js_quot _ NaN = NaN"
| "js_quot (Fin a) PosInf = Fin 0"
| "js_quot (Fin a) NegInf = Fin 0"
| "js_quot PosInf (Fin b) = (if 0 \<le> b then PosInf else NegInf)"
| "js_quot NegInf (Fin b) = (if 0 \<le> b then NegInf else PosInf)"
| "js_quot PosInf PosInf = NaN"
| "js_quot PosInf NegInf = NaN"
| "js_quot NegInf PosInf = NaN"
| "js_quot NegInf NegInf = NaN"

text \<open>The operators \<open>+\<close>, \<open>-\<close>, \<open>*\<close> and \<open>/\<close> on doubles.\<close>

definition fl_add :: "jsnum \<Rightarrow> jsnum \<Rightarrow> jsnum" where
  "fl_add a b = js_round (js_add a b)"

definition fl_sub :: "jsnum \<Rightarrow> jsnum \<Rightarrow> jsnum" where
  "fl_sub a b = js_round (js_sub a b)"

definition fl_mul :: "jsnum \<Rightarrow> jsnum \<Rightarrow> jsnum" where
  "fl_mul a b = js_round (js_mul a b)"

definition fl_div :: "jsnum \<Rightarrow> jsnum \<Rightarrow> jsnum" where
  "fl_div a b = js_round (js_quot a b)"

text \<open>\<open>Math.abs\<close>, and \<open>Math.min\<close> of two numbers, which is \<open>NaN\<close> when one of them is.\<close>

fun js_abs :: "jsnum \<Rightarrow> jsnum" where
  "js_abs (Fin a) = Fin \<bar>a\<bar>"
| "js_abs PosInf = PosInf"
| "js_abs NegInf = PosInf"
| "js_abs NaN = NaN"

definition js_min :: "jsnum \<Rightarrow> jsnum \<Rightarrow> jsnum" where
  "js_min a b = (if a = NaN \<or> b = NaN then NaN else if js_lt b a then b else a)"

text \<open>
  A \<open>Date\<close> holds a time value: the milliseconds since the epoch, an integer of magnitude
  at most \<open>maxTime\<close>, or \<open>NaN\<close>, which makes it an invalid date. The dates in the records
  of the store and the instants at which a priority is evaluated are valid and are
  modelled by their time values. The dates that the
  next-due computation builds can be invalid and are values of \<open>jsdate\<close>; there
  \<open>newDate t\<close> is \<open>new Date(t)\<close> for an integer \<open>t\<close>, which clips a time value out of range.
  A sum or product of integers that the source computes on the way to such a date is
  exact in doubles as long as its magnitude is below \<open>2 ^ 53\<close>, and beyond that bound the
  rounded value is out of the range of time values as the exact one is; so these sums
  and products are those of integers.
\<close>

type_synonym date = int

definition msPerDay :: int where
  "msPerDay = 86400000"

definition maxTime :: int where
  "maxTime = 8640000000000000"

definition validTime :: "int \<Rightarrow> bool" where
  "validTime t = (- maxTime \<le> t \<and> t \<le> maxTime)"

datatype jsdate = Date int | InvalidDate

definition newDate :: "int \<Rightarrow> jsdate" where
  "newDate t = (if validTime t then Date t else InvalidDate)"

text \<open>\<open>new Date(d.getTime() + ms)\<close>.\<close>

fun plusMs :: "jsdate \<Rightarrow> int \<Rightarrow> jsdate" where
  "plusMs (Date t) ms = newDate (t + ms)"
| "plusMs InvalidDate ms = InvalidDate"

section \<open>Errors\<close>

text \<open>
  One constructor for each \<open>throw new Error(...)\<close> of the modelled code, and
  \<open>InvalidTimeValue\<close> for the \<open>RangeError\<close> that \<open>toISOString\<close> throws on an invalid date.
\<close>

datatype error =
    DeadlineMustBeAfterStart
  | ExponentOutOfRange
  | WindowEndMustBeAfterStart
  | PriorityOutOfRange
  | BlockedNeedsOneDependency
  | HardWindowRequiresWindow
  | DependencyCheckerRequired
  | BlockedRequiresDependencies
  | AccumulatorRequiresRecurrence
  | UnknownCurveType
  | TaskNotFound nat
  | DependencyNotFound nat
  | CircularDependency
  | NoRecurrencePattern
  | InvalidTimeValue

section \<open>Linear and exponential curves\<close>

text \<open>\<open>new LinearCurve(startDate, deadline)\<close>: the constructor and its check.\<close>

datatype LinearCurve = LinearCurve (lin_startDate: date) (lin_deadline: date)

definition new_LinearCurve :: "date \<Rightarrow> date \<Rightarrow> error + LinearCurve" where
  "new_LinearCurve startDate deadline =
     (if deadline \<le> startDate then Inl DeadlineMustBeAfterStart
      else Inr (LinearCurve startDate deadline))"

fun LinearCurve_calculate :: "LinearCurve \<Rightarrow> date \<Rightarrow> jsnum" where
  "LinearCurve_calculate (LinearCurve start end) now =
     (if now < start then Fin 0
      else if end < now then
        (let overdueMs = now - end; totalMs = end - start
         in js_add (Fin 1) (js_div (real_of_int overdueMs) (real_of_int totalMs)))
      else js_div (real_of_int (now - start)) (real_of_int (end - start)))"

datatype ExponentialCurve =
  ExponentialCurve (exp_startDate: date) (exp_deadline: date) (exp_exponent: real)

definition new_ExponentialCurve :: "date \<Rightarrow> date \<Rightarrow> real \<Rightarrow> error + ExponentialCurve" where
  "new_ExponentialCurve startDate deadline exponent =
     (if deadline \<le> startDate then Inl DeadlineMustBeAfterStart
      else if exponent < 1 \<or> 5 < exponent then Inl ExponentOutOfRange
      else Inr (ExponentialCurve startDate deadline exponent))"

fun ExponentialCurve_calculate :: "ExponentialCurve \<Rightarrow> date \<Rightarrow> jsnum" where
  "ExponentialCurve_calculate (ExponentialCurve start end exponent) now =
     (if now < start then Fin 0
      else if end < now then
        (let overdueMs = now - end; totalMs = end - start
         in js_add (Fin 1) (js_div (real_of_int overdueMs) (real_of_int totalMs)))
      else
        (let linear = js_div (real_of_int (now - start)) (real_of_int (end - start))
         in js_pow linear exponent))"

section \<open>Calendar arithmetic of the host\<close>

text \<open>
  The local-time methods of \<open>Date\<close> depend on the time zone of the host. It is a parameter
  \<open>tz\<close>: the offset of local time from UTC in milliseconds, the same at every instant
  (no daylight-saving transitions). Then \<open>setDate(getDate() + n)\<close> adds \<open>n\<close> days of
  \<open>msPerDay\<close> milliseconds and \<open>setHours(0, 0, 0, 0)\<close> subtracts the local time within
  the day.
\<close>

definition localDay :: "int \<Rightarrow> date \<Rightarrow> int" where
  "localDay tz t = (t + tz) div msPerDay"

definition getDay :: "int \<Rightarrow> date \<Rightarrow> int" where
  "getDay tz t = (localDay tz t + 4) mod 7"

definition getHours :: "int \<Rightarrow> date \<Rightarrow> int" where
  "getHours tz t = ((t + tz) mod msPerDay) div 3600000"

definition getMinutes :: "int \<Rightarrow> date \<Rightarrow> int" where
  "getMinutes tz t = ((t + tz) mod 3600000) div 60000"

definition addDays :: "date \<Rightarrow> int \<Rightarrow> date" where
  "addDays t n = t + n * msPerDay"

definition startOfDay :: "int \<Rightarrow> date \<Rightarrow> date" where
  "startOfDay tz t = t - (t + tz) mod msPerDay"

definition setHoursMinutes :: "int \<Rightarrow> date \<Rightarrow> int \<Rightarrow> int \<Rightarrow> date" where
  "setHoursMinutes tz t h m = startOfDay tz t + h * 3600000 + m * 60000"

text \<open>
  Year and month (0 to 11) of a day number counted from 1970-01-01, in the proleptic
  Gregorian calendar, and the length of a month.
\<close>

definition yearMonthOfDay :: "int \<Rightarrow> int \<times> int" where
  "yearMonthOfDay z =
     (let z' = z + 719468;
          era = z' div 146097;
          doe = z' mod 146097;
          yoe = (doe - doe div 1460 + doe div 36524 - doe div 146096) div 365;
          doy = doe - (365 * yoe + yoe div 4 - yoe div 100);
          mp = (5 * doy + 2) div 153;
          m = (if mp < 10 then mp + 3 else mp - 9);
          y = yoe + era * 400 + (if m \<le> 2 then 1 else 0)
      in (y, m - 1))"

definition isLeapYear :: "int \<Rightarrow> bool" where
  "isLeapYear y = (y mod 4 = 0 \<and> (y mod 100 \<noteq> 0 \<or> y mod 400 = 0))"

definition daysInMonth :: "int \<Rightarrow> int \<Rightarrow> int" where
  "daysInMonth y m =
     (if m = 1 then (if isLeapYear y then 29 else 28)
      else if m = 3 \<or> m = 5 \<or> m = 8 \<or> m = 10 then 30
      else 31)"

text \<open>
  \<open>d.setMonth(d.getMonth() + 1)\<close> keeps the day of the month and the time within the day
  and lets the date overflow into the following month: the day number grows by the length
  of the current month, because the first of the next month is that many days after the
  first of this one.
\<close>

definition setNextMonth :: "int \<Rightarrow> date \<Rightarrow> date" where
  "setNextMonth tz t =
     (case yearMonthOfDay (localDay tz t) of (y, m) \<Rightarrow> addDays t (daysInMonth y m))"

text \<open>
  The setters on a date that may be invalid: \<open>d.setDate(d.getDate() + n)\<close>,
  \<open>d.setHours(0, 0, 0, 0)\<close> and \<open>d.setMonth(d.getMonth() + 1)\<close>. Each one clips the time
  value it computes and leaves an invalid date invalid.
\<close>

fun setDateBy :: "jsdate \<Rightarrow> int \<Rightarrow> jsdate" where
  "setDateBy (Date t) n = newDate (addDays t n)"
| "setDateBy InvalidDate n = InvalidDate"

fun setMidnight :: "int \<Rightarrow> jsdate \<Rightarrow> jsdate" where
  "setMidnight tz (Date t) = newDate (startOfDay tz t)"
| "setMidnight tz InvalidDate = InvalidDate"

fun setMonthNext :: "int \<Rightarrow> jsdate \<Rightarrow> jsdate" where
  "setMonthNext tz (Date t) = newDate (setNextMonth tz t)"
| "setMonthNext tz InvalidDate = InvalidDate"

section \<open>Data model\<close>

datatype TaskStatus = OPEN | IN_PROGRESS | COMPLETED | BLOCKED_STATUS

datatype RecurrenceMode = CALENDAR | COMPLETION

text \<open>\<open>OTHER_TYPE\<close> stands for a stored value outside the enumeration (the default branches).\<close>

datatype RecurrenceType = DAILY | WEEKLY | MONTHLY | INTERVAL | OTHER_TYPE

datatype RecurrenceUnit = Days | Weeks | Months

datatype CurveType =
  LINEAR | EXPONENTIAL | HARD_WINDOW | BLOCKED | ACCUMULATOR | OTHER_CURVE

text \<open>
  A time of day \<open>HH:MM\<close> is kept as its two numeric fields, the result of
  \<open>split(':').map(Number)\<close> on a well-formed string.
\<close>

type_synonym hhmm = "nat \<times> nat"

text \<open>
  Field \<open>rtype\<close> is the source's \<open>type\<close>, \<open>runit\<close> its \<open>unit\<close>. The interval is a whole
  number of days, weeks or months, a weekday a whole number.
\<close>

record RecurrencePattern =
  mode :: RecurrenceMode
  rtype :: RecurrenceType
  interval :: "int option"
  runit :: "RecurrenceUnit option"
  dayOfWeek :: "int option"
  daysOfWeek :: "int list option"
  timeOfDay :: "hhmm option"
  anchor :: "date option"

text \<open>
  The fields of \<open>CurveConfig\<close> carry the prefix \<open>cfg_\<close>. The type of \<open>cfg_type\<close> is a
  parameter: \<open>CurveType\<close> for a \<open>CurveConfig\<close>, \<open>CurveType option\<close> for a
  \<open>Partial<CurveConfig>\<close>.
\<close>

record 'ty CurveConfigOf =
  cfg_type :: 'ty
  cfg_start_date :: "date option"
  cfg_deadline :: "date option"
  cfg_exponent :: "real option"
  cfg_window_start :: "date option"
  cfg_window_end :: "date option"
  cfg_priority :: "real option"
  cfg_dependencies :: "nat list option"
  cfg_then_curve :: "CurveType option"
  cfg_recurrence :: "RecurrencePattern option"
  cfg_buildup_rate :: "real option"

type_synonym CurveConfig = "CurveType CurveConfigOf"

type_synonym PartialCurveConfig = "CurveType option CurveConfigOf"

text \<open>Field \<open>task_id\<close> is the source's \<open>id\<close>. A duration is a natural number of minutes.\<close>

record Task =
  task_id :: nat
  title :: string
  project :: "string option"
  bucket_id :: "nat option"
  tags :: "string list"
  deadline :: "date option"
  estimate_minutes :: "nat option"
  recurrence_pattern :: "RecurrencePattern option"
  last_completed_at :: "date option"
  next_due_at :: "date option"
  window_start :: "hhmm option"
  window_end :: "hhmm option"
  dependencies :: "nat list"
  curve_config :: CurveConfig
  status :: TaskStatus
  created_at :: date
  updated_at :: date

record CreateCompletionInput =
  c_task_id :: nat
  c_completed_at :: date
  c_day_of_week :: int
  c_hour_of_day :: int
  c_scheduled_minutes :: "nat option"

text \<open>
  The store: the rows of the tables \<open>tasks\<close> and \<open>completions\<close>. \<open>getTask\<close> selects by
  the primary key, \<open>getTasks\<close> filters by status and orders by \<open>created_at\<close> descending.
\<close>

record Database =
  db_tasks :: "Task list"
  db_completions :: "CreateCompletionInput list"

definition getTask :: "Database \<Rightarrow> nat \<Rightarrow> Task option" where
  "getTask db i = find (\<lambda>t. task_id t = i) (db_tasks db)"

definition getTasks :: "Database \<Rightarrow> TaskStatus list option \<Rightarrow> Task list" where
  "getTasks db flt =
     sort_key (\<lambda>t. - created_at t)
       (case flt of
          None \<Rightarrow> db_tasks db
        | Some sts \<Rightarrow> filter (\<lambda>t. status t \<in> set sts) (db_tasks db))"

section \<open>Hard-window, accumulator and blocked curves\<close>

datatype HardWindowCurve =
  HardWindowCurve (hw_windowStart: date) (hw_windowEnd: date) (hw_priority: real)

definition new_HardWindowCurve :: "date \<Rightarrow> date \<Rightarrow> real \<Rightarrow> error + HardWindowCurve" where
  "new_HardWindowCurve windowStart windowEnd p =
     (if windowEnd \<le> windowStart then Inl WindowEndMustBeAfterStart
      else if p < 0 \<or> 2 < p then Inl PriorityOutOfRange
      else Inr (HardWindowCurve windowStart windowEnd p))"

fun HardWindowCurve_calculate :: "HardWindowCurve \<Rightarrow> date \<Rightarrow> jsnum" where
  "HardWindowCurve_calculate (HardWindowCurve start end p) now =
     (if start \<le> now \<and> now \<le> end then Fin p else Fin 0)"

datatype AccumulatorCurve =
  AccumulatorCurve (acc_recurrence: RecurrencePattern) (acc_lastCompleted: "date option")
    (acc_nextDue: date) (acc_buildupRate: real)

definition unitDays :: "RecurrenceUnit \<Rightarrow> int" where
  "unitDays u = (case u of Days \<Rightarrow> 1 | Weeks \<Rightarrow> 7 | Months \<Rightarrow> 30)"

text \<open>
  The numbers the accumulator computes with are doubles. A time value is an integer below
  \<open>2 ^ 53\<close>, the numbers of a pattern and of a curve are the doubles nearest to the
  decimal numbers that the records hold, and a decimal literal of the source is the double
  nearest to it.
\<close>

definition getExpectedIntervalDays :: "RecurrencePattern \<Rightarrow> jsnum" where
  "getExpectedIntervalDays p =
     (case rtype p of
        DAILY \<Rightarrow> Fin 1
      | WEEKLY \<Rightarrow> Fin 7
      | MONTHLY \<Rightarrow> Fin 30
      | INTERVAL \<Rightarrow>
          fl_mul
            (case interval p of Some i \<Rightarrow> fl (real_of_int i) | None \<Rightarrow> Fin 1)
            (Fin (real_of_int (unitDays (case runit p of Some u \<Rightarrow> u | None \<Rightarrow> Days))))
      | OTHER_TYPE \<Rightarrow> Fin 7)"

definition calculateCalendarMode :: "AccumulatorCurve \<Rightarrow> jsnum \<Rightarrow> jsnum \<Rightarrow> jsnum" where
  "calculateCalendarMode c now due =
     (let expectedInterval = getExpectedIntervalDays (acc_recurrence c);
          daysUntilDue = fl_div (fl_sub due now) (Fin 86400000)
      in if js_gt daysUntilDue (fl_div expectedInterval (Fin 2)) then fl (2 / 10)
         else if js_lt daysUntilDue (Fin 0) then
           (let daysOverdue = js_abs daysUntilDue
            in js_min (fl (15 / 10))
                 (fl_add (Fin 1) (fl_mul daysOverdue (fl (acc_buildupRate c)))))
         else
           (let progress =
                  fl_sub (Fin 1) (fl_div daysUntilDue (fl_div expectedInterval (Fin 2)))
            in fl_add (fl (2 / 10)) (fl_mul progress (fl (8 / 10)))))"

definition calculateCompletionMode :: "AccumulatorCurve \<Rightarrow> jsnum \<Rightarrow> jsnum" where
  "calculateCompletionMode c now =
     (let expectedDays = getExpectedIntervalDays (acc_recurrence c);
          lastDone = (case acc_lastCompleted c of
                        Some l \<Rightarrow> Fin (real_of_int l)
                      | None \<Rightarrow> fl_sub now (fl_mul expectedDays (Fin 86400000)));
          daysSince = fl_div (fl_sub now lastDone) (Fin 86400000);
          ratio = fl_div daysSince expectedDays
      in if js_lt ratio (fl (5 / 10)) then fl (1 / 10)
         else if js_lt ratio (fl (8 / 10)) then fl (3 / 10)
         else if js_lt ratio (Fin 1) then fl (6 / 10)
         else if js_lt ratio (fl (12 / 10)) then fl (9 / 10)
         else Fin 1)"

definition AccumulatorCurve_calculate :: "AccumulatorCurve \<Rightarrow> date \<Rightarrow> jsnum" where
  "AccumulatorCurve_calculate c datetime =
     (let now = Fin (real_of_int datetime); due = Fin (real_of_int (acc_nextDue c))
      in if mode (acc_recurrence c) = CALENDAR then calculateCalendarMode c now due
         else calculateCompletionMode c now)"

text \<open>
  The curves behind the interfaces \<open>PriorityCurve\<close> and \<open>AsyncPriorityCurve\<close>. A blocked
  curve holds its dependency ids and the wrapped curve; the dependency checker it holds is
  the task service, that is the store, which is passed when the curve is evaluated.
\<close>

datatype PriorityCurve =
    Linear LinearCurve
  | Exponential ExponentialCurve
  | HardWindow HardWindowCurve
  | Accumulator AccumulatorCurve
  | Blocked "nat list" PriorityCurve

definition new_BlockedCurve :: "nat list \<Rightarrow> PriorityCurve \<Rightarrow> error + PriorityCurve" where
  "new_BlockedCurve deps thenCurve =
     (if length deps = 0 then Inl BlockedNeedsOneDependency
      else Inr (Blocked deps thenCurve))"

fun allDependenciesComplete :: "Database \<Rightarrow> nat list \<Rightarrow> bool" where
  "allDependenciesComplete db [] = True"
| "allDependenciesComplete db (depId # rest) =
     (case getTask db depId of
        None \<Rightarrow> False
      | Some task \<Rightarrow>
          if status task \<noteq> COMPLETED then False else allDependenciesComplete db rest)"

fun curve_calculate :: "Database \<Rightarrow> PriorityCurve \<Rightarrow> date \<Rightarrow> jsnum" where
  "curve_calculate db (Linear c) t = LinearCurve_calculate c t"
| "curve_calculate db (Exponential c) t = ExponentialCurve_calculate c t"
| "curve_calculate db (HardWindow c) t = HardWindowCurve_calculate c t"
| "curve_calculate db (Accumulator c) t = AccumulatorCurve_calculate c t"
| "curve_calculate db (Blocked deps thenCurve) t =
     (if \<not> allDependenciesComplete db deps then Fin 0
      else curve_calculate db thenCurve t)"

section \<open>Curve factory\<close>

text \<open>
  \<open>clk\<close> is the reading of the clock (\<open>new Date()\<close>, \<open>Date.now()\<close>) during the call. The
  dependency checker and the owning task are optional arguments.
\<close>

definition sum_map_right :: "('a \<Rightarrow> 'b) \<Rightarrow> error + 'a \<Rightarrow> error + 'b" where
  "sum_map_right f r = (case r of Inl e \<Rightarrow> Inl e | Inr x \<Rightarrow> Inr (f x))"

definition wrappedConfig :: "date \<Rightarrow> CurveConfig \<Rightarrow> CurveConfig" where
  "wrappedConfig clk config =
     \<lparr> cfg_type = (case cfg_then_curve config of Some ty \<Rightarrow> ty | None \<Rightarrow> LINEAR),
       cfg_start_date = Some (case cfg_start_date config of Some d \<Rightarrow> d | None \<Rightarrow> clk),
       cfg_deadline = cfg_deadline config,
       cfg_exponent = None, cfg_window_start = None, cfg_window_end = None,
       cfg_priority = None, cfg_dependencies = None, cfg_then_curve = None,
       cfg_recurrence = None, cfg_buildup_rate = None \<rparr>"

definition blockedReady :: "CurveConfig \<Rightarrow> Database option \<Rightarrow> bool" where
  "blockedReady config checker =
     (cfg_type config = BLOCKED \<and> checker \<noteq> None \<and>
      (case cfg_dependencies config of None \<Rightarrow> False | Some ds \<Rightarrow> length ds \<noteq> 0))"

function CurveFactory_create ::
  "date \<Rightarrow> CurveConfig \<Rightarrow> Database option \<Rightarrow> Task option \<Rightarrow> error + PriorityCurve" where
  "CurveFactory_create clk config dependencyChecker task =
     (case cfg_type config of
        LINEAR \<Rightarrow>
          sum_map_right Linear
            (new_LinearCurve
               (case cfg_start_date config of Some d \<Rightarrow> d | None \<Rightarrow> clk)
               (case cfg_deadline config of Some d \<Rightarrow> d | None \<Rightarrow> clk + 7 * 86400000))
      | EXPONENTIAL \<Rightarrow>
          sum_map_right Exponential
            (new_ExponentialCurve
               (case cfg_start_date config of Some d \<Rightarrow> d | None \<Rightarrow> clk)
               (case cfg_deadline config of Some d \<Rightarrow> d | None \<Rightarrow> clk + 7 * 86400000)
               (case cfg_exponent config of Some k \<Rightarrow> k | None \<Rightarrow> 2))
      | HARD_WINDOW \<Rightarrow>
          (case (cfg_window_start config, cfg_window_end config) of
             (Some ws, Some we) \<Rightarrow>
               sum_map_right HardWindow
                 (new_HardWindowCurve ws we
                    (case cfg_priority config of Some p \<Rightarrow> p | None \<Rightarrow> 1))
           | _ \<Rightarrow> Inl HardWindowRequiresWindow)
      | BLOCKED \<Rightarrow>
          if dependencyChecker = None then Inl DependencyCheckerRequired
          else
            (case cfg_dependencies config of
               None \<Rightarrow> Inl BlockedRequiresDependencies
             | Some deps \<Rightarrow>
                 if length deps = 0 then Inl BlockedRequiresDependencies
                 else
                   (case CurveFactory_create clk (wrappedConfig clk config)
                           dependencyChecker None of
                      Inl e \<Rightarrow> Inl e
                    | Inr wrappedCurve \<Rightarrow> new_BlockedCurve deps wrappedCurve))
      | ACCUMULATOR \<Rightarrow>
          (case cfg_recurrence config of
             None \<Rightarrow> Inl AccumulatorRequiresRecurrence
           | Some recurrence \<Rightarrow>
               Inr (Accumulator
                 (AccumulatorCurve recurrence
                    (case task of None \<Rightarrow> None | Some t \<Rightarrow> last_completed_at t)
                    (case task of
                       None \<Rightarrow> clk
                     | Some t \<Rightarrow> (case next_due_at t of Some d \<Rightarrow> d | None \<Rightarrow> clk))
                    (case cfg_buildup_rate config of Some r \<Rightarrow> r | None \<Rightarrow> 1 / 10))))
      | OTHER_CURVE \<Rightarrow> Inl UnknownCurveType)"
  by pat_completeness auto
termination
  by (relation "measure (\<lambda>(clk, config, checker, task).
        if blockedReady config checker then 1 else 0)")
     (auto simp: blockedReady_def wrappedConfig_def)

section \<open>The store's curve configuration\<close>

text \<open>
  \<open>Database.buildCurveConfig\<close>, called when a task is inserted and when its curve
  configuration is updated. A field of the partial configuration that is \<open>None\<close> is an
  absent property.
\<close>

definition buildCurveConfig ::
  "date \<Rightarrow> PartialCurveConfig option \<Rightarrow> RecurrencePattern option \<Rightarrow> CurveConfig" where
  "buildCurveConfig clk partial recurrencePattern =
     (let now = clk;
          defaultDeadline = now + 7 * 24 * 60 * 60 * 1000;
          partialType = (case partial of None \<Rightarrow> None | Some p \<Rightarrow> cfg_type p);
          hasExplicitType = (partialType \<noteq> None);
          defaultType =
            (if \<not> hasExplicitType \<and> recurrencePattern \<noteq> None then ACCUMULATOR else LINEAR);
          config =
            (case partial of
               None \<Rightarrow>
                 \<lparr> cfg_type = defaultType, cfg_start_date = Some now,
                   cfg_deadline = Some defaultDeadline, cfg_exponent = None,
                   cfg_window_start = None, cfg_window_end = None, cfg_priority = None,
                   cfg_dependencies = None, cfg_then_curve = None, cfg_recurrence = None,
                   cfg_buildup_rate = None \<rparr>
             | Some p \<Rightarrow>
                 \<lparr> cfg_type = (case cfg_type p of Some ty \<Rightarrow> ty | None \<Rightarrow> defaultType),
                   cfg_start_date =
                     Some (case cfg_start_date p of Some d \<Rightarrow> d | None \<Rightarrow> now),
                   cfg_deadline =
                     Some (case cfg_deadline p of Some d \<Rightarrow> d | None \<Rightarrow> defaultDeadline),
                   cfg_exponent = cfg_exponent p,
                   cfg_window_start = cfg_window_start p,
                   cfg_window_end = cfg_window_end p,
                   cfg_priority = cfg_priority p,
                   cfg_dependencies = cfg_dependencies p,
                   cfg_then_curve = cfg_then_curve p,
                   cfg_recurrence = cfg_recurrence p,
                   cfg_buildup_rate = cfg_buildup_rate p \<rparr>)
      in if cfg_type config = ACCUMULATOR \<and> cfg_recurrence config = None \<and>
            recurrencePattern \<noteq> None
         then config\<lparr> cfg_recurrence := recurrencePattern \<rparr>
         else config)"

section \<open>Store updates\<close>

record UpdateTaskInput =
  u_title :: "string option"
  u_project :: "string option"
  u_tags :: "string list option"
  u_deadline :: "date option"
  u_estimate_minutes :: "nat option"
  u_bucket_id :: "nat option"
  u_recurrence_pattern :: "RecurrencePattern option"
  u_window_start :: "hhmm option"
  u_window_end :: "hhmm option"
  u_dependencies :: "nat list option"
  u_curve_config :: "PartialCurveConfig option"
  u_status :: "TaskStatus option"

definition noUpdates :: UpdateTaskInput where
  "noUpdates =
     \<lparr> u_title = None, u_project = None, u_tags = None, u_deadline = None,
       u_estimate_minutes = None, u_bucket_id = None, u_recurrence_pattern = None,
       u_window_start = None, u_window_end = None, u_dependencies = None,
       u_curve_config = None, u_status = None \<rparr>"

definition applyUpdates :: "date \<Rightarrow> UpdateTaskInput \<Rightarrow> Task \<Rightarrow> Task" where
  "applyUpdates clk u t =
     t\<lparr> title := (case u_title u of Some x \<Rightarrow> x | None \<Rightarrow> title t),
        project := (case u_project u of Some x \<Rightarrow> Some x | None \<Rightarrow> project t),
        tags := (case u_tags u of Some x \<Rightarrow> x | None \<Rightarrow> tags t),
        deadline := (case u_deadline u of Some x \<Rightarrow> Some x | None \<Rightarrow> deadline t),
        estimate_minutes :=
          (case u_estimate_minutes u of Some x \<Rightarrow> Some x | None \<Rightarrow> estimate_minutes t),
        bucket_id := (case u_bucket_id u of Some x \<Rightarrow> Some x | None \<Rightarrow> bucket_id t),
        recurrence_pattern :=
          (case u_recurrence_pattern u of Some x \<Rightarrow> Some x | None \<Rightarrow> recurrence_pattern t),
        window_start :=
          (case u_window_start u of Some x \<Rightarrow> Some x | None \<Rightarrow> window_start t),
        window_end := (case u_window_end u of Some x \<Rightarrow> Some x | None \<Rightarrow> window_end t),
        dependencies := (case u_dependencies u of Some x \<Rightarrow> x | None \<Rightarrow> dependencies t),
        curve_config :=
          (case u_curve_config u of
             Some x \<Rightarrow> buildCurveConfig clk (Some x) (u_recurrence_pattern u)
           | None \<Rightarrow> curve_config t),
        status := (case u_status u of Some x \<Rightarrow> x | None \<Rightarrow> status t),
        updated_at := clk \<rparr>"

definition updateTask :: "date \<Rightarrow> Database \<Rightarrow> nat \<Rightarrow> UpdateTaskInput \<Rightarrow> Database" where
  "updateTask clk db i u =
     (if u = noUpdates then db
      else db\<lparr> db_tasks :=
             map (\<lambda>t. if task_id t = i then applyUpdates clk u t else t) (db_tasks db) \<rparr>)"

definition setTaskLastCompleted :: "date \<Rightarrow> Database \<Rightarrow> nat \<Rightarrow> date \<Rightarrow> Database" where
  "setTaskLastCompleted clk db i completedAt =
     db\<lparr> db_tasks :=
          map (\<lambda>t. if task_id t = i
                    then t\<lparr> last_completed_at := Some completedAt, updated_at := clk \<rparr>
                    else t) (db_tasks db) \<rparr>"

definition setTaskNextDue :: "date \<Rightarrow> Database \<Rightarrow> nat \<Rightarrow> date \<Rightarrow> Database" where
  "setTaskNextDue clk db i nextDue =
     db\<lparr> db_tasks :=
          map (\<lambda>t. if task_id t = i
                    then t\<lparr> next_due_at := Some nextDue, updated_at := clk \<rparr>
                    else t) (db_tasks db) \<rparr>"

definition insertCompletion :: "Database \<Rightarrow> CreateCompletionInput \<Rightarrow> Database" where
  "insertCompletion db input = db\<lparr> db_completions := db_completions db @ [input] \<rparr>"

section \<open>Task service: priority\<close>

definition isInTimeWindow :: "int \<Rightarrow> date \<Rightarrow> hhmm \<Rightarrow> hhmm \<Rightarrow> bool" where
  "isInTimeWindow tz datetime windowStart windowEnd =
     (case (windowStart, windowEnd) of
        ((startHour, startMin), (endHour, endMin)) \<Rightarrow>
          (let currentHour = getHours tz datetime;
               currentMin = getMinutes tz datetime;
               currentTime = currentHour * 60 + currentMin;
               startTime = int startHour * 60 + int startMin;
               endTime = int endHour * 60 + int endMin
           in if endTime < startTime
              then startTime \<le> currentTime \<or> currentTime \<le> endTime
              else startTime \<le> currentTime \<and> currentTime \<le> endTime))"

definition calculateLinearPriority :: "Task \<Rightarrow> date \<Rightarrow> jsnum" where
  "calculateLinearPriority task datetime =
     (let start = created_at task;
          end = (case deadline task of Some d \<Rightarrow> d | None \<Rightarrow> start + 7 * 86400000);
          now = datetime
      in if now < start then Fin 0
         else if end < now
           then js_add (Fin 1) (js_div (real_of_int (now - end)) (real_of_int (end - start)))
         else js_div (real_of_int (now - start)) (real_of_int (end - start)))"

text \<open>
  \<open>calculateTaskPriority\<close>: the \<open>try\<close> block holds the construction and the evaluation of
  the curve; in the model only the construction can raise.
\<close>

definition calculateTaskPriority :: "date \<Rightarrow> int \<Rightarrow> Database \<Rightarrow> Task \<Rightarrow> date \<Rightarrow> jsnum" where
  "calculateTaskPriority clk tz db task datetime =
     (if 0 < length (dependencies task) \<and> \<not> allDependenciesComplete db (dependencies task)
      then Fin 0
      else
        (case (window_start task, window_end task) of
           (Some ws, Some we) \<Rightarrow>
             if \<not> isInTimeWindow tz datetime ws we then Fin 0
             else
               (case CurveFactory_create clk (curve_config task) (Some db) (Some task) of
                  Inr curve \<Rightarrow> curve_calculate db curve datetime
                | Inl e \<Rightarrow> calculateLinearPriority task datetime)
         | _ \<Rightarrow>
             (case CurveFactory_create clk (curve_config task) (Some db) (Some task) of
                Inr curve \<Rightarrow> curve_calculate db curve datetime
              | Inl e \<Rightarrow> calculateLinearPriority task datetime)))"

definition calculatePriority ::
  "date \<Rightarrow> int \<Rightarrow> Database \<Rightarrow> nat \<Rightarrow> date option \<Rightarrow> error + jsnum" where
  "calculatePriority clk tz db i datetime =
     (case getTask db i of
        None \<Rightarrow> Inl (TaskNotFound i)
      | Some task \<Rightarrow>
          Inr (calculateTaskPriority clk tz db task
                 (case datetime of Some d \<Rightarrow> d | None \<Rightarrow> clk)))"

text \<open>
  \<open>Array.prototype.sort\<close> with a comparator is stable. Where the comparator is a
  consistent ordering every stable sort returns the same array, the one that insertion
  builds. Where it is not (a \<open>NaN\<close> priority) the language leaves the order to the
  implementation; the model keeps the order insertion gives, which need not be the order
  of a given engine. A result of the comparator that is \<open>NaN\<close> counts as \<open>0\<close>.
\<close>

fun insert_by :: "('a \<Rightarrow> 'a \<Rightarrow> jsnum) \<Rightarrow> 'a \<Rightarrow> 'a list \<Rightarrow> 'a list" where
  "insert_by cmp x [] = [x]"
| "insert_by cmp x (y # ys) =
     (if js_gt (cmp x y) (Fin 0) then y # insert_by cmp x ys else x # y # ys)"

definition js_sort :: "('a \<Rightarrow> 'a \<Rightarrow> jsnum) \<Rightarrow> 'a list \<Rightarrow> 'a list" where
  "js_sort cmp xs = foldr (insert_by cmp) xs []"

record TaskWithPriority = Task +
  priority :: jsnum

definition withPriority :: "Task \<Rightarrow> jsnum \<Rightarrow> TaskWithPriority" where
  "withPriority t p = Task.extend t (TaskWithPriority.fields p)"

definition byPriorityDesc :: "TaskWithPriority \<Rightarrow> TaskWithPriority \<Rightarrow> jsnum" where
  "byPriorityDesc a b = js_sub (priority b) (priority a)"

text \<open>A limit is a count; \<open>if (limit)\<close> is false for an absent limit and for \<open>0\<close>.\<close>

definition getByPriority ::
  "date \<Rightarrow> int \<Rightarrow> Database \<Rightarrow> nat option \<Rightarrow> date option \<Rightarrow> TaskWithPriority list" where
  "getByPriority clk tz db limit datetime =
     (let now = (case datetime of Some d \<Rightarrow> d | None \<Rightarrow> clk);
          tasks = getTasks db (Some [OPEN, IN_PROGRESS]);
          tasksWithPriority =
            map (\<lambda>task. withPriority task (calculateTaskPriority clk tz db task now)) tasks;
          sorted = js_sort byPriorityDesc tasksWithPriority
      in case limit of
           None \<Rightarrow> sorted
         | Some n \<Rightarrow> if n \<noteq> 0 then take n sorted else sorted)"

section \<open>Task service: dependency validation\<close>

text \<open>
  The breadth-first search of \<open>validateDependencies\<close>: \<open>True\<close> when the loop throws the
  circular-dependency error, \<open>False\<close> when the queue runs empty.
\<close>

definition allDependencyIds :: "Database \<Rightarrow> nat set" where
  "allDependencyIds db = (\<Union>t \<in> set (db_tasks db). set (dependencies t))"

function cycleSearch :: "Database \<Rightarrow> nat \<Rightarrow> nat set \<Rightarrow> nat list \<Rightarrow> bool" where
  "cycleSearch db excludeTaskId visited [] = False"
| "cycleSearch db excludeTaskId visited (current # queue) =
     (if current = excludeTaskId then True
      else if current \<in> visited then cycleSearch db excludeTaskId visited queue
      else cycleSearch db excludeTaskId (insert current visited)
             (queue @ (case getTask db current of
                         Some task \<Rightarrow> dependencies task
                       | None \<Rightarrow> [])))"
  by pat_completeness auto
termination
proof (relation "measures
    [\<lambda>(db, x, visited, queue). card ((set queue \<union> allDependencyIds db) - visited),
     \<lambda>(db, x, visited, queue). length queue]", goal_cases)
  case 1
  show ?case by simp
next
  case (2 db excludeTaskId visited current queue)
  then have "(set (current # queue) \<union> allDependencyIds db) - visited =
             (set queue \<union> allDependencyIds db) - visited"
    by auto
  then show ?case by simp
next
  case (3 db excludeTaskId visited current queue)
  let ?deps = "case getTask db current of Some task \<Rightarrow> dependencies task | None \<Rightarrow> []"
  have sub: "set ?deps \<subseteq> allDependencyIds db"
  proof (cases "getTask db current")
    case None
    then show ?thesis by simp
  next
    case (Some task)
    then have "task \<in> set (db_tasks db)"
      by (auto simp: getTask_def find_Some_iff)
    with Some show ?thesis by (auto simp: allDependencyIds_def)
  qed
  have fin: "finite ((set (current # queue) \<union> allDependencyIds db) - visited)"
    by (simp add: allDependencyIds_def)
  from 3 sub have "(set (queue @ ?deps) \<union> allDependencyIds db) - insert current visited
        \<subset> (set (current # queue) \<union> allDependencyIds db) - visited"
    by auto
  from psubset_card_mono [OF fin this]
  have "card ((set (queue @ ?deps) \<union> allDependencyIds db) - insert current visited)
        < card ((set (current # queue) \<union> allDependencyIds db) - visited)" .
  then show ?case by (simp del: set_append set_simps)
qed

fun firstMissing :: "Database \<Rightarrow> nat list \<Rightarrow> nat option" where
  "firstMissing db [] = None"
| "firstMissing db (depId # rest) =
     (case getTask db depId of None \<Rightarrow> Some depId | Some dep \<Rightarrow> firstMissing db rest)"

definition validateDependencies :: "Database \<Rightarrow> nat list \<Rightarrow> nat option \<Rightarrow> error + unit" where
  "validateDependencies db deps excludeTaskId =
     (case firstMissing db deps of
        Some depId \<Rightarrow> Inl (DependencyNotFound depId)
      | None \<Rightarrow>
          (case excludeTaskId of
             None \<Rightarrow> Inr ()
           | Some x \<Rightarrow> if cycleSearch db x {} deps then Inl CircularDependency else Inr ()))"

definition update ::
  "date \<Rightarrow> Database \<Rightarrow> nat \<Rightarrow> UpdateTaskInput \<Rightarrow> error + Database \<times> Task" where
  "update clk db i updates =
     (case (case u_dependencies updates of
              Some deps \<Rightarrow>
                if 0 < length deps then validateDependencies db deps (Some i) else Inr ()
            | None \<Rightarrow> Inr ()) of
        Inl e \<Rightarrow> Inl e
      | Inr _ \<Rightarrow>
          (let db' = updateTask clk db i updates
           in case getTask db' i of
                None \<Rightarrow> Inl (TaskNotFound i)
              | Some task \<Rightarrow> Inr (db', task)))"

section \<open>Task service: recurrence and completion\<close>

text \<open>
  \<open>pattern.daysOfWeek.includes(next.getDay())\<close>: the weekday of an invalid date is \<open>NaN\<close>,
  which a list of integers does not include.
\<close>

fun includesDay :: "int \<Rightarrow> int list \<Rightarrow> jsdate \<Rightarrow> bool" where
  "includesDay tz days (Date t) = (getDay tz t \<in> set days)"
| "includesDay tz days InvalidDate = False"

text \<open>
  The \<open>for\<close> loop of the weekly search: at most \<open>n\<close> more iterations, each one testing the
  weekday of \<open>next\<close> and then moving one day on; after the last iteration \<open>next\<close> is
  returned as it is.
\<close>

fun weeklySearch :: "int \<Rightarrow> int list \<Rightarrow> jsdate \<Rightarrow> nat \<Rightarrow> jsdate" where
  "weeklySearch tz days next 0 = next"
| "weeklySearch tz days next (Suc n) =
     (if includesDay tz days next then next
      else weeklySearch tz days (setDateBy next 1) n)"

text \<open>\<open>a.getTime() <= b.getTime()\<close>: false when one of the two dates is invalid.\<close>

fun notAfter :: "jsdate \<Rightarrow> jsdate \<Rightarrow> bool" where
  "notAfter (Date a) (Date b) = (a \<le> b)"
| "notAfter InvalidDate b = False"
| "notAfter a InvalidDate = False"

text \<open>
  The \<open>while\<close> loop of the interval case. A run that does not end has the value \<open>None\<close>;
  that is the run with the step \<open>0\<close> from a date that is not after \<open>now\<close>.
\<close>

partial_function (option) advanceInterval :: "int \<Rightarrow> jsdate \<Rightarrow> jsdate \<Rightarrow> jsdate option" where
  "advanceInterval stepMs now next =
     (if notAfter next now then advanceInterval stepMs now (plusMs next stepMs)
      else Some next)"

text \<open>\<open>pattern.interval && pattern.unit\<close>: a number other than zero and a unit.\<close>

definition intervalAndUnit :: "RecurrencePattern \<Rightarrow> (int \<times> RecurrenceUnit) option" where
  "intervalAndUnit pattern =
     (case (interval pattern, runit pattern) of
        (Some i, Some u) \<Rightarrow> if i \<noteq> 0 then Some (i, u) else None
      | _ \<Rightarrow> None)"

definition nonEmptyDaysOfWeek :: "RecurrencePattern \<Rightarrow> int list option" where
  "nonEmptyDaysOfWeek pattern =
     (case daysOfWeek pattern of
        Some days \<Rightarrow> if 0 < length days then Some days else None
      | None \<Rightarrow> None)"

text \<open>\<open>pattern.anchor ?? task.created_at\<close>.\<close>

definition anchorOf :: "Task \<Rightarrow> RecurrencePattern \<Rightarrow> date" where
  "anchorOf task pattern = (case anchor pattern of Some a \<Rightarrow> a | None \<Rightarrow> created_at task)"

text \<open>
  \<open>calculateNextDue\<close>: \<open>None\<close> when the call does not return, \<open>Inl\<close> the error it throws,
  \<open>Inr\<close> the date it returns, which may be invalid.
\<close>

definition calculateNextDue :: "int \<Rightarrow> Task \<Rightarrow> jsdate \<Rightarrow> (error + jsdate) option" where
  "calculateNextDue tz task completedAt =
     (case recurrence_pattern task of
        None \<Rightarrow> Some (Inl NoRecurrencePattern)
      | Some pattern \<Rightarrow>
          if mode pattern = COMPLETION then
            (let intervalDays =
               (if rtype pattern = DAILY then 1
                else if rtype pattern = WEEKLY then 7
                else if rtype pattern = MONTHLY then 30
                else if rtype pattern = INTERVAL then
                  (case intervalAndUnit pattern of
                     Some (i, u) \<Rightarrow> i * unitDays u
                   | None \<Rightarrow> 7)
                else 7)
             in Some (Inr (plusMs completedAt (intervalDays * msPerDay))))
          else
            (let now = completedAt
             in if rtype pattern = DAILY then
                  Some (Inr (setMidnight tz (setDateBy now 1)))
                else if rtype pattern = WEEKLY \<and> nonEmptyDaysOfWeek pattern \<noteq> None then
                  (case nonEmptyDaysOfWeek pattern of
                     Some days \<Rightarrow>
                       Some (Inr (weeklySearch tz days (setMidnight tz (setDateBy now 1)) 7))
                   | None \<Rightarrow> Some (Inr (plusMs now (7 * msPerDay))))
                else if rtype pattern = WEEKLY \<and> dayOfWeek pattern \<noteq> None then
                  (case (dayOfWeek pattern, now) of
                     (Some dow, Date t) \<Rightarrow>
                       (let currentDay = getDay tz t;
                            daysUntil = dow - currentDay;
                            daysUntil' = (if daysUntil \<le> 0 then daysUntil + 7 else daysUntil)
                        in Some (Inr (setMidnight tz (setDateBy now daysUntil'))))
                   | (Some dow, InvalidDate) \<Rightarrow> Some (Inr InvalidDate)
                   | (None, _) \<Rightarrow> Some (Inr (plusMs now (7 * msPerDay))))
                else if rtype pattern = MONTHLY then
                  Some (Inr (setMidnight tz (setMonthNext tz now)))
                else if rtype pattern = INTERVAL \<and> intervalAndUnit pattern \<noteq> None then
                  (case intervalAndUnit pattern of
                     Some (i, u) \<Rightarrow>
                       (let intervalDays = i * unitDays u;
                            anchor' = anchorOf task pattern
                        in map_option Inr
                             (advanceInterval (intervalDays * msPerDay) now (newDate anchor')))
                   | None \<Rightarrow> Some (Inr (plusMs now (7 * msPerDay))))
                else Some (Inr (plusMs now (7 * msPerDay)))))"

text \<open>
  \<open>complete\<close>: \<open>None\<close> when the call does not return; otherwise the error it throws, if
  any, and the store it leaves. The completion instant is an integer, read as the date
  \<open>newDate\<close> makes of it. The store writes a date with \<open>toISOString\<close>, which throws on an
  invalid date before anything is written: in \<open>insertCompletion\<close> for the completion
  instant, in \<open>setTaskNextDue\<close> for the next due date, when the completion row and
  \<open>last_completed_at\<close> are already written.
\<close>

definition complete ::
  "date \<Rightarrow> int \<Rightarrow> Database \<Rightarrow> nat \<Rightarrow> date option \<Rightarrow> (error option \<times> Database) option" where
  "complete clk tz db i completedAt =
     (case getTask db i of
        None \<Rightarrow> Some (Some (TaskNotFound i), db)
      | Some task \<Rightarrow>
          (case newDate (case completedAt of Some d \<Rightarrow> d | None \<Rightarrow> clk) of
             InvalidDate \<Rightarrow> Some (Some InvalidTimeValue, db)
           | Date now \<Rightarrow>
               (let completionInput =
                      \<lparr> c_task_id = i, c_completed_at = now, c_day_of_week = getDay tz now,
                        c_hour_of_day = getHours tz now,
                        c_scheduled_minutes = estimate_minutes task \<rparr>;
                    db1 = insertCompletion db completionInput;
                    db2 = setTaskLastCompleted clk db1 i now
                in if recurrence_pattern task \<noteq> None then
                     (case calculateNextDue tz task (Date now) of
                        None \<Rightarrow> None
                      | Some (Inl e) \<Rightarrow> Some (Some e, db2)
                      | Some (Inr InvalidDate) \<Rightarrow> Some (Some InvalidTimeValue, db2)
                      | Some (Inr (Date nextDue)) \<Rightarrow>
                          Some (None, updateTask clk (setTaskNextDue clk db2 i nextDue) i
                                        (noUpdates\<lparr> u_status := Some OPEN \<rparr>)))
                   else
                     Some (None, updateTask clk db2 i
                                   (noUpdates\<lparr> u_status := Some COMPLETED \<rparr>)))))"

section \<open>Daily planner\<close>

record TimeSlot =
  slot_start :: hhmm
  slot_end :: hhmm

record ScheduledTask =
  s_task :: TaskWithPriority
  s_slot :: TimeSlot
  estimateMinutes :: nat
  isDefaultEstimate :: bool

record UnscheduledTask =
  un_task :: TaskWithPriority
  reason :: string

record DailyPlan =
  plan_date :: date
  workHours :: TimeSlot
  scheduled :: "ScheduledTask list"
  unscheduled :: "UnscheduledTask list"
  totalScheduledMinutes :: int
  remainingMinutes :: int

record PlannerConfig =
  workHoursStart :: hhmm
  workHoursEnd :: hhmm
  defaultEstimateMinutes :: nat

definition DEFAULT_CONFIG :: PlannerConfig where
  "DEFAULT_CONFIG =
     \<lparr> workHoursStart = (8, 0), workHoursEnd = (17, 0), defaultEstimateMinutes = 15 \<rparr>"

definition parseTime :: "hhmm \<Rightarrow> int" where
  "parseTime time = (case time of (hours, minutes) \<Rightarrow> int hours * 60 + int minutes)"

text \<open>
  \<open>formatTime\<close> is applied to minutes since midnight that are not negative; the two fields
  of the string it builds are \<open>Math.floor(minutes / 60)\<close> and \<open>minutes % 60\<close>.
\<close>

definition formatTime :: "int \<Rightarrow> hhmm" where
  "formatTime minutes = (nat (minutes div 60), nat (minutes mod 60))"

text \<open>A used slot is a pair \<open>(start, end)\<close> of minutes since midnight.\<close>

type_synonym minuteSlot = "int \<times> int"

definition rangeIntersection :: "int \<Rightarrow> int \<Rightarrow> int \<Rightarrow> int \<Rightarrow> minuteSlot option" where
  "rangeIntersection start1 end1 start2 end2 =
     (let start = max start1 start2; end = min end1 end2
      in if end \<le> start then None else Some (start, end))"

definition byStart :: "minuteSlot \<Rightarrow> minuteSlot \<Rightarrow> jsnum" where
  "byStart a b = Fin (real_of_int (fst a - fst b))"

text \<open>The loop over the gaps between consecutive used slots.\<close>

fun findGapBetween :: "minuteSlot list \<Rightarrow> int \<Rightarrow> int \<Rightarrow> int \<Rightarrow> minuteSlot option" where
  "findGapBetween (a # b # rest) allowedStart allowedEnd durationMinutes =
     (let gapStart = max (snd a) allowedStart;
          gapEnd = min (fst b) allowedEnd
      in if durationMinutes \<le> gapEnd - gapStart
         then Some (gapStart, gapStart + durationMinutes)
         else findGapBetween (b # rest) allowedStart allowedEnd durationMinutes)"
| "findGapBetween _ allowedStart allowedEnd durationMinutes = None"

definition findAvailableSlot ::
  "minuteSlot list \<Rightarrow> int \<Rightarrow> int \<Rightarrow> int \<Rightarrow> minuteSlot option" where
  "findAvailableSlot usedSlots allowedStart allowedEnd durationMinutes =
     (let sorted = js_sort byStart usedSlots
      in case sorted of
           [] \<Rightarrow>
             if durationMinutes \<le> allowedEnd - allowedStart
             then Some (allowedStart, allowedStart + durationMinutes)
             else None
         | first # _ \<Rightarrow>
             (let firstSlotStart = fst first
              in if allowedStart < firstSlotStart \<and>
                    durationMinutes \<le> min firstSlotStart allowedEnd - allowedStart
                 then Some (allowedStart, allowedStart + durationMinutes)
                 else
                   (case findGapBetween sorted allowedStart allowedEnd durationMinutes of
                      Some slot \<Rightarrow> Some slot
                    | None \<Rightarrow>
                        (let lastSlotEnd = snd (last sorted)
                         in if lastSlotEnd < allowedEnd \<and>
                               durationMinutes \<le> allowedEnd - max lastSlotEnd allowedStart
                            then Some (max lastSlotEnd allowedStart,
                                       max lastSlotEnd allowedStart + durationMinutes)
                            else None))))"

definition filterActionable :: "int \<Rightarrow> TaskWithPriority list \<Rightarrow> date \<Rightarrow> TaskWithPriority list" where
  "filterActionable tz tasks date =
     filter (\<lambda>task.
       if js_eq (priority task) (Fin 0) then False
       else if (case deadline task of
                  Some d \<Rightarrow> startOfDay tz d \<le> startOfDay tz date
                | None \<Rightarrow> False) then True
       else if (case next_due_at task of
                  Some d \<Rightarrow> startOfDay tz d \<le> startOfDay tz date
                | None \<Rightarrow> False) then True
       else if window_start task \<noteq> None \<and> window_end task \<noteq> None then True
       else if js_gt (priority task) (Fin (3 / 10)) then True
       else False) tasks"

definition taskEstimate :: "PlannerConfig \<Rightarrow> TaskWithPriority \<Rightarrow> nat" where
  "taskEstimate config task =
     (case estimate_minutes task of Some m \<Rightarrow> m | None \<Rightarrow> defaultEstimateMinutes config)"

definition taskIsDefaultEstimate :: "TaskWithPriority \<Rightarrow> bool" where
  "taskIsDefaultEstimate task =
     (case estimate_minutes task of Some m \<Rightarrow> m = 0 | None \<Rightarrow> True)"

text \<open>
  The scheduling loop of \<open>planDay\<close> over the actionable tasks; its state is the used slots
  and the two lists built so far.
\<close>

fun scheduleLoop ::
  "PlannerConfig \<Rightarrow> nat \<Rightarrow> TaskWithPriority list \<Rightarrow>
   minuteSlot list \<times> ScheduledTask list \<times> UnscheduledTask list \<Rightarrow>
   minuteSlot list \<times> ScheduledTask list \<times> UnscheduledTask list" where
  "scheduleLoop config limit [] st = st"
| "scheduleLoop config limit (task # rest) (usedSlots, sched, unsched) =
     (if limit \<le> length sched then (usedSlots, sched, unsched)
      else
        (let estimate = taskEstimate config task;
             workStart = parseTime (workHoursStart config);
             workEnd = parseTime (workHoursEnd config);
             allowed =
               (case (window_start task, window_end task) of
                  (Some ws, Some we) \<Rightarrow>
                    rangeIntersection workStart workEnd (parseTime ws) (parseTime we)
                | _ \<Rightarrow> Some (workStart, workEnd))
         in case allowed of
              None \<Rightarrow>
                scheduleLoop config limit rest
                  (usedSlots, sched,
                   unsched @ [\<lparr> un_task = task, reason = ''window outside work hours'' \<rparr>])
            | Some (allowedStart, allowedEnd) \<Rightarrow>
                (case findAvailableSlot usedSlots allowedStart allowedEnd (int estimate) of
                   Some slot \<Rightarrow>
                     scheduleLoop config limit rest
                       (js_sort byStart (usedSlots @ [slot]),
                        sched @ [\<lparr> s_task = task,
                                   s_slot = \<lparr> slot_start = formatTime (fst slot),
                                              slot_end = formatTime (snd slot) \<rparr>,
                                   estimateMinutes = estimate,
                                   isDefaultEstimate = taskIsDefaultEstimate task \<rparr>],
                        unsched)
                 | None \<Rightarrow>
                     scheduleLoop config limit rest
                       (usedSlots, sched,
                        unsched @ [\<lparr> un_task = task, reason = ''does not fit'' \<rparr>]))))"

definition priorityTime :: "int \<Rightarrow> PlannerConfig \<Rightarrow> date \<Rightarrow> date" where
  "priorityTime tz config date =
     (case workHoursStart config of
        (startHour, startMin) \<Rightarrow>
          (let calcHour = max (int startHour) 9
           in setHoursMinutes tz date calcHour (int startMin)))"

definition planDay ::
  "date \<Rightarrow> int \<Rightarrow> PlannerConfig \<Rightarrow> Database \<Rightarrow> date \<Rightarrow> nat option \<Rightarrow> bool option \<Rightarrow> DailyPlan" where
  "planDay clk tz config db date optLimit optBlocks =
     (let limit = (case optLimit of Some n \<Rightarrow> n | None \<Rightarrow> 8);
          includeTimeBlocks = (case optBlocks of Some b \<Rightarrow> b | None \<Rightarrow> True);
          tasks = getByPriority clk tz db (Some (limit * 2)) (Some (priorityTime tz config date));
          actionable = filterActionable tz tasks date;
          workStart = parseTime (workHoursStart config);
          workEnd = parseTime (workHoursEnd config);
          totalWorkMinutes = workEnd - workStart;
          hours = \<lparr> slot_start = workHoursStart config, slot_end = workHoursEnd config \<rparr>
      in if \<not> includeTimeBlocks then
           (let sched =
                  map (\<lambda>task. \<lparr> s_task = task, s_slot = hours,
                                 estimateMinutes = taskEstimate config task,
                                 isDefaultEstimate = taskIsDefaultEstimate task \<rparr>)
                    (take limit actionable);
                totalScheduled = (\<Sum>s\<leftarrow>sched. int (estimateMinutes s))
            in \<lparr> plan_date = date, workHours = hours, scheduled = sched, unscheduled = [],
                 totalScheduledMinutes = totalScheduled,
                 remainingMinutes = totalWorkMinutes - totalScheduled \<rparr>)
         else
           (case scheduleLoop config limit actionable ([], [], []) of
              (usedSlots, sched, unsched) \<Rightarrow>
                (let totalScheduled = (\<Sum>s\<leftarrow>sched. int (estimateMinutes s))
                 in \<lparr> plan_date = date, workHours = hours, scheduled = sched,
                      unscheduled = unsched, totalScheduledMinutes = totalScheduled,
                      remainingMinutes = totalWorkMinutes - totalScheduled \<rparr>)))"

section \<open>Reference definitions from the specification\<close>

text \<open>
  The expected interval \<open>D\<close> in days as the specification tabulates it. For an interval
  pattern the table reads \<open>interval \<times> {days: 1, weeks: 7, months: 30}[unit]\<close>; it gives no
  value when one of the two fields is absent.
\<close>

definition spec_expected_interval :: "RecurrencePattern \<Rightarrow> real option" where
  "spec_expected_interval p =
     (case rtype p of
        DAILY \<Rightarrow> Some 1
      | WEEKLY \<Rightarrow> Some 7
      | MONTHLY \<Rightarrow> Some 30
      | INTERVAL \<Rightarrow>
          (case (interval p, runit p) of
             (Some i, Some u) \<Rightarrow>
               Some (real_of_int i * (case u of Days \<Rightarrow> 1 | Weeks \<Rightarrow> 7 | Months \<Rightarrow> 30))
           | _ \<Rightarrow> None)
      | OTHER_TYPE \<Rightarrow> Some 7)"

text \<open>
  The two modes of the accumulator as the specification states them, for \<open>D \<noteq> 0\<close>:
  \<open>\<Delta>\<close> is the signed number of days until \<open>next_due\<close>, \<open>r\<close> the days since the last
  completion divided by \<open>D\<close>.
\<close>

definition spec_calendar_mode :: "real \<Rightarrow> real \<Rightarrow> date \<Rightarrow> date \<Rightarrow> real" where
  "spec_calendar_mode D buildup_rate next_due t =
     (let \<Delta> = real_of_int (next_due - t) / 86400000
      in if D / 2 < \<Delta> then 2 / 10
         else if \<Delta> < 0 then min (15 / 10) (1 + \<bar>\<Delta>\<bar> * buildup_rate)
         else 2 / 10 + (1 - \<Delta> / (D / 2)) * (8 / 10))"

definition spec_completion_mode :: "real \<Rightarrow> date option \<Rightarrow> date \<Rightarrow> real" where
  "spec_completion_mode D last_completed t =
     (let days_since_last =
            (case last_completed of
               Some l \<Rightarrow> real_of_int (t - l) / 86400000
             | None \<Rightarrow> D);
          r = days_since_last / D
      in if r < 5 / 10 then 1 / 10
         else if r < 8 / 10 then 3 / 10
         else if r < 1 then 6 / 10
         else if r < 12 / 10 then 9 / 10
         else 1)"

text \<open>
  The same reference evaluated in double arithmetic: each operation and each decimal
  literal is rounded, in the order in which the specification writes them, \<open>\<Delta>\<close> as
  \<open>(next_due - t) / 86400000\<close> and \<open>r\<close> as \<open>((t - last) / 86400000) / D\<close>. In the table of
  expected intervals an absent \<open>interval\<close> counts as \<open>1\<close> and an absent \<open>unit\<close> as days.
\<close>

definition spec_expected_interval_double :: "RecurrencePattern \<Rightarrow> jsnum" where
  "spec_expected_interval_double p =
     (case rtype p of
        DAILY \<Rightarrow> Fin 1
      | WEEKLY \<Rightarrow> Fin 7
      | MONTHLY \<Rightarrow> Fin 30
      | INTERVAL \<Rightarrow>
          fl_mul (fl (real_of_int (case interval p of Some i \<Rightarrow> i | None \<Rightarrow> 1)))
            (Fin (case (case runit p of Some u \<Rightarrow> u | None \<Rightarrow> Days) of
                    Days \<Rightarrow> 1 | Weeks \<Rightarrow> 7 | Months \<Rightarrow> 30))
      | OTHER_TYPE \<Rightarrow> Fin 7)"

definition spec_calendar_mode_double :: "jsnum \<Rightarrow> real \<Rightarrow> date \<Rightarrow> date \<Rightarrow> jsnum" where
  "spec_calendar_mode_double D buildup_rate next_due t =
     (let \<Delta> = fl_div (fl_sub (Fin (real_of_int next_due)) (Fin (real_of_int t)))
                (Fin 86400000)
      in if js_lt (fl_div D (Fin 2)) \<Delta> then fl (2 / 10)
         else if js_lt \<Delta> (Fin 0)
           then js_min (fl (15 / 10)) (fl_add (Fin 1) (fl_mul (js_abs \<Delta>) (fl buildup_rate)))
         else fl_add (fl (2 / 10))
                (fl_mul (fl_sub (Fin 1) (fl_div \<Delta> (fl_div D (Fin 2)))) (fl (8 / 10))))"

definition spec_completion_mode_double :: "jsnum \<Rightarrow> date option \<Rightarrow> date \<Rightarrow> jsnum" where
  "spec_completion_mode_double D last_completed t =
     (let last =
            (case last_completed of
               Some l \<Rightarrow> Fin (real_of_int l)
             | None \<Rightarrow> fl_sub (Fin (real_of_int t)) (fl_mul D (Fin 86400000)));
          r = fl_div (fl_div (fl_sub (Fin (real_of_int t)) last) (Fin 86400000)) D
      in if js_lt r (fl (5 / 10)) then fl (1 / 10)
         else if js_lt r (fl (8 / 10)) then fl (3 / 10)
         else if js_lt r (Fin 1) then fl (6 / 10)
         else if js_lt r (fl (12 / 10)) then fl (9 / 10)
         else Fin 1)"

text \<open>The containment test of a daily time window, on minutes since midnight.\<close>

definition spec_in_window :: "int \<Rightarrow> int \<Rightarrow> int \<Rightarrow> bool" where
  "spec_in_window now_minutes start end =
     (if start \<le> end then start \<le> now_minutes \<and> now_minutes \<le> end
      else start \<le> now_minutes \<or> now_minutes \<le> end)"

text \<open>The formula of a linear curve from \<open>s\<close> to \<open>e\<close>.\<close>

definition spec_linear :: "date \<Rightarrow> date \<Rightarrow> date \<Rightarrow> jsnum" where
  "spec_linear s e t =
     (if t < s then Fin 0
      else if e < t then js_add (Fin 1) (js_div (real_of_int (t - e)) (real_of_int (e - s)))
      else js_div (real_of_int (t - s)) (real_of_int (e - s)))"

text \<open>The edges of the dependency graph: from a stored task to each id it lists.\<close>

definition dependencyEdges :: "Database \<Rightarrow> (nat \<times> nat) set" where
  "dependencyEdges db =
     {(a, b). \<exists>task. getTask db a = Some task \<and> b \<in> set (dependencies task)}"

section \<open>Example values\<close>

text \<open>Concrete configurations, patterns and tasks on which the theorems are instantiated.\<close>

definition exampleConfig :: "CurveType \<Rightarrow> CurveConfig" where
  "exampleConfig ty =
     \<lparr> cfg_type = ty, cfg_start_date = None, cfg_deadline = None, cfg_exponent = None,
       cfg_window_start = None, cfg_window_end = None, cfg_priority = None,
       cfg_dependencies = None, cfg_then_curve = None, cfg_recurrence = None,
       cfg_buildup_rate = None \<rparr>"

definition examplePattern :: "RecurrenceMode \<Rightarrow> RecurrenceType \<Rightarrow> RecurrencePattern" where
  "examplePattern m ty =
     \<lparr> mode = m, rtype = ty, interval = None, runit = None, dayOfWeek = None,
       daysOfWeek = None, timeOfDay = None, anchor = None \<rparr>"

definition exampleTask :: "nat \<Rightarrow> CurveConfig \<Rightarrow> Task" where
  "exampleTask i config =
     \<lparr> task_id = i, title = ''task'', project = None, bucket_id = None, tags = [],
       deadline = None, estimate_minutes = None, recurrence_pattern = None,
       last_completed_at = None, next_due_at = None, window_start = None,
       window_end = None, dependencies = [], curve_config = config, status = OPEN,
       created_at = 0, updated_at = 0 \<rparr>"

definition linearConfig :: "date \<Rightarrow> date \<Rightarrow> CurveConfig" where
  "linearConfig s e = (exampleConfig LINEAR)\<lparr> cfg_start_date := Some s, cfg_deadline := Some e \<rparr>"

definition exampleDb :: Database where
  "exampleDb =
     \<lparr> db_tasks = [exampleTask 1 (linearConfig 0 20), exampleTask 2 (linearConfig 0 10)],
       db_completions = [] \<rparr>"

definition chainDb :: Database where
  "chainDb =
     \<lparr> db_tasks = [(exampleTask 2 (linearConfig 0 10))\<lparr> dependencies := [1] \<rparr>,
                   exampleTask 1 (linearConfig 0 20)],
       db_completions = [] \<rparr>"

definition weeklyTask :: Task where
  "weeklyTask =
     (exampleTask 1 (exampleConfig ACCUMULATOR))
       \<lparr> recurrence_pattern :=
           Some ((examplePattern CALENDAR WEEKLY)\<lparr> daysOfWeek := Some [1, 3] \<rparr>) \<rparr>"

definition intervalTask :: Task where
  "intervalTask =
     (exampleTask 3 (exampleConfig ACCUMULATOR))
       \<lparr> recurrence_pattern :=
           Some ((examplePattern CALENDAR INTERVAL)
                   \<lparr> interval := Some 2, runit := Some Days \<rparr>) \<rparr>"

definition hugeIntervalTask :: Task where
  "hugeIntervalTask =
     (exampleTask 4 (exampleConfig ACCUMULATOR))
       \<lparr> recurrence_pattern :=
           Some ((examplePattern CALENDAR INTERVAL)
                   \<lparr> interval := Some 100000000, runit := Some Days \<rparr>),
         created_at := 1000 \<rparr>"

definition wednesdayTask :: Task where
  "wednesdayTask =
     (exampleTask 5 (exampleConfig ACCUMULATOR))
       \<lparr> recurrence_pattern :=
           Some ((examplePattern CALENDAR WEEKLY)
                   \<lparr> interval := Some 1, runit := Some Weeks, dayOfWeek := Some 3 \<rparr>) \<rparr>"

definition recurringDb :: Database where
  "recurringDb =
     \<lparr> db_tasks = [weeklyTask, exampleTask 2 (linearConfig 0 10), intervalTask,
                   hugeIntervalTask, wednesdayTask],
       db_completions = [] \<rparr>"

definition nanDb :: Database where
  "nanDb =
     \<lparr> db_tasks = [(exampleTask 11 (linearConfig 0 60))\<lparr> created_at := 20 \<rparr>,
                   (exampleTask 12 (linearConfig 15 15))
                     \<lparr> deadline := Some 15, created_at := 15 \<rparr>,
                   exampleTask 13 (linearConfig 0 20)],
       db_completions = [] \<rparr>"

definition estimateTask :: "nat \<Rightarrow> date \<Rightarrow> nat \<Rightarrow> Task" where
  "estimateTask i dl est = (exampleTask i (linearConfig 0 dl))\<lparr> estimate_minutes := Some est \<rparr>"

definition overlapDb :: Database where
  "overlapDb =
     \<lparr> db_tasks = [estimateTask 1 86400000 60, estimateTask 2 172800000 60,
                   estimateTask 3 259200000 0, estimateTask 4 345600000 60],
       db_completions = [] \<rparr>"

section \<open>Notions used in the statements\<close>

text \<open>The open and in-progress tasks of the store, each with its priority at \<open>now\<close>.\<close>

definition prioritized :: "date \<Rightarrow> int \<Rightarrow> Database \<Rightarrow> date \<Rightarrow> TaskWithPriority list" where
  "prioritized clk tz db now =
     map (\<lambda>task. withPriority task (calculateTaskPriority clk tz db task now))
       (getTasks db (Some [OPEN, IN_PROGRESS]))"

text \<open>
  The number of days within which the next due date of a pattern follows the completion:
  31, or the length of the interval of an interval pattern when that is more.
\<close>

definition nextDueDays :: "RecurrencePattern \<Rightarrow> int" where
  "nextDueDays p =
     (if rtype p = INTERVAL
      then (case intervalAndUnit p of Some (i, u) \<Rightarrow> max 31 (i * unitDays u) | None \<Rightarrow> 31)
      else 31)"

text \<open>Descending order of priorities: no entry is followed by one of greater priority.\<close>

definition priorityDescending :: "TaskWithPriority \<Rightarrow> TaskWithPriority \<Rightarrow> bool" where
  "priorityDescending a b = (\<not> js_lt (priority a) (priority b))"

text \<open>
  The minutes since midnight of an emitted slot, and the bounds a scheduled entry has to
  respect: the work hours, the length of the estimate, and the window of its task.
\<close>

definition slotMinutes :: "ScheduledTask \<Rightarrow> minuteSlot" where
  "slotMinutes s = (parseTime (slot_start (s_slot s)), parseTime (slot_end (s_slot s)))"

definition slotWithinHours :: "PlannerConfig \<Rightarrow> ScheduledTask \<Rightarrow> bool" where
  "slotWithinHours config s =
     (parseTime (workHoursStart config) \<le> fst (slotMinutes s) \<and>
      snd (slotMinutes s) = fst (slotMinutes s) + int (estimateMinutes s) \<and>
      snd (slotMinutes s) \<le> parseTime (workHoursEnd config) \<and>
      (case (window_start (s_task s), window_end (s_task s)) of
         (Some ws, Some we) \<Rightarrow>
           parseTime ws \<le> fst (slotMinutes s) \<and> snd (slotMinutes s) \<le> parseTime we
       | _ \<Rightarrow> True))"

text \<open>Two slots that do not overlap, and a slot that ends before another starts.\<close>

definition endsBefore :: "minuteSlot \<Rightarrow> minuteSlot \<Rightarrow> bool" where
  "endsBefore a b = (snd a \<le> fst b)"

definition disjointSlots :: "minuteSlot \<Rightarrow> minuteSlot \<Rightarrow> bool" where
  "disjointSlots a b = (snd a \<le> fst b \<or> snd b \<le> fst a)"

section \<open>Properties of the linear and exponential curves\<close>







section \<open>The accumulator curve against its reference definition\<close>

text \<open>Evaluation of the rounding at numerals.\<close>

lemma bitlen_eval:
  "bitlen 0 = 0"
  "bitlen (Suc 0) = 1"
  "bitlen 1 = 1"
  "bitlen (numeral k) = Suc (bitlen (numeral k div 2))"
  by (simp_all add: bitlen.simps [of 0] bitlen.simps [of "Suc 0"] bitlen.simps [of 1]
      bitlen.simps [of "numeral k"])

lemmas fl_eval = fl_def floorLog2_def pow2_def roundEven_def Let_def bitlen_eval

lemmas acc_eval = AccumulatorCurve_calculate_def calculateCompletionMode_def
  calculateCalendarMode_def getExpectedIntervalDays_def unitDays_def
  fl_add_def fl_sub_def fl_mul_def fl_div_def js_sub_def js_div_def js_gt_def js_min_def

lemma fl_one: "fl 1 = Fin 1"
  by (simp add: fl_eval)

lemma expected_interval_double_agrees:
  "getExpectedIntervalDays p = spec_expected_interval_double p"
  by (simp add: spec_expected_interval_double_def getExpectedIntervalDays_def unitDays_def
      fl_one split: RecurrenceType.splits option.splits RecurrenceUnit.splits)

lemma calendar_mode_value:
  "calculateCalendarMode c (Fin (real_of_int t)) (Fin (real_of_int (acc_nextDue c))) =
     spec_calendar_mode_double (getExpectedIntervalDays (acc_recurrence c))
       (acc_buildupRate c) (acc_nextDue c) t"
  by (simp add: calculateCalendarMode_def spec_calendar_mode_double_def Let_def js_gt_def)

lemma completion_mode_value:
  "calculateCompletionMode c (Fin (real_of_int t)) =
     spec_completion_mode_double (getExpectedIntervalDays (acc_recurrence c))
       (acc_lastCompleted c) t"
  by (cases "acc_lastCompleted c")
     (simp_all add: calculateCompletionMode_def spec_completion_mode_double_def Let_def)

text \<open>
  C2, as amended. For every recurrence pattern and every instant \<open>t\<close>, the accumulator
  curve returns the value of the two-mode reference evaluated in double arithmetic, with
  the expected interval of the table completed by the defaults for an absent \<open>interval\<close>
  and an absent \<open>unit\<close>: in calendar mode the value of \<open>spec_calendar_mode_double\<close>, in
  completion mode the value of \<open>spec_completion_mode_double\<close>.
\<close>

theorem C2_accumulator_matches_reference:
  "AccumulatorCurve_calculate (AccumulatorCurve p last_completed next_due rate) t =
     (case mode p of
        CALENDAR \<Rightarrow>
          spec_calendar_mode_double (spec_expected_interval_double p) rate next_due t
      | COMPLETION \<Rightarrow>
          spec_completion_mode_double (spec_expected_interval_double p) last_completed t)"
proof (cases "mode p")
  case CALENDAR
  with calendar_mode_value [of "AccumulatorCurve p last_completed next_due rate" t]
  show ?thesis
    by (simp add: AccumulatorCurve_calculate_def expected_interval_double_agrees)
next
  case COMPLETION
  with completion_mode_value [of "AccumulatorCurve p last_completed next_due rate" t]
  show ?thesis
    by (simp add: AccumulatorCurve_calculate_def expected_interval_double_agrees)
qed

theorem C2_accumulator_matches_reference_witness:
  "AccumulatorCurve_calculate
     (AccumulatorCurve (examplePattern CALENDAR WEEKLY) None 264600000 (1 / 10)) 0 =
     Fin (5404319552844596 / 18014398509481984) \<and>
   AccumulatorCurve_calculate
     (AccumulatorCurve (examplePattern COMPLETION WEEKLY) (Some 0) 0 (1 / 10)) 86400000 =
     fl (1 / 10)"
proof -
  have calendar: "spec_calendar_mode_double
      (spec_expected_interval_double (examplePattern CALENDAR WEEKLY)) (1 / 10) 264600000 0 =
      Fin (5404319552844596 / 18014398509481984)"
    by (simp add: spec_calendar_mode_double_def spec_expected_interval_double_def
        examplePattern_def fl_add_def fl_sub_def fl_mul_def fl_div_def js_sub_def js_div_def
        fl_eval)
  have completion: "spec_completion_mode_double
      (spec_expected_interval_double (examplePattern COMPLETION WEEKLY)) (Some 0) 86400000 =
      fl (1 / 10)"
    by (simp add: spec_completion_mode_double_def spec_expected_interval_double_def
        examplePattern_def fl_sub_def fl_div_def js_sub_def js_div_def fl_eval)
  have modes: "mode (examplePattern CALENDAR WEEKLY) = CALENDAR"
    "mode (examplePattern COMPLETION WEEKLY) = COMPLETION"
    by (simp_all add: examplePattern_def)
  from C2_accumulator_matches_reference
         [of "examplePattern CALENDAR WEEKLY" None 264600000 "1 / 10" 0]
    C2_accumulator_matches_reference
         [of "examplePattern COMPLETION WEEKLY" "Some 0" 0 "1 / 10" 86400000]
    modes calendar completion
  show ?thesis by simp
qed

text \<open>
  C2 as stated does not hold. Five days, 14 hours and 24 minutes after the last completion
  of a weekly task the ratio \<open>r\<close> is \<open>4/5\<close>, for which the reference returns \<open>0.6\<close>; the
  code computes \<open>(483840000 / 86400000) / 7\<close> in doubles, a number below the double
  nearest to \<open>0.8\<close>, and returns the double nearest to \<open>0.3\<close>. For an interval pattern
  without \<open>interval\<close> and \<open>unit\<close> the table of the reference gives no expected interval; the
  code takes one day, so that one day after the last completion the ratio is \<open>1\<close>.
\<close>

theorem C2_rounded_ratio_counterexample:
  "spec_expected_interval (examplePattern COMPLETION WEEKLY) = Some 7 \<and>
   spec_completion_mode 7 (Some 0) 483840000 = 6 / 10 \<and>
   AccumulatorCurve_calculate
     (AccumulatorCurve (examplePattern COMPLETION WEEKLY) (Some 0) 0 (1 / 10)) 483840000 =
     fl (3 / 10) \<and>
   fl (3 / 10) = Fin (5404319552844595 / 18014398509481984) \<and>
   spec_expected_interval (examplePattern COMPLETION INTERVAL) = None \<and>
   AccumulatorCurve_calculate
     (AccumulatorCurve (examplePattern COMPLETION INTERVAL) (Some 0) 0 (1 / 10)) 86400000 =
     fl (9 / 10)"
proof -
  have "spec_expected_interval (examplePattern COMPLETION WEEKLY) = Some 7"
    and "spec_expected_interval (examplePattern COMPLETION INTERVAL) = None"
    by (simp_all add: spec_expected_interval_def examplePattern_def)
  moreover have "spec_completion_mode 7 (Some 0) 483840000 = 6 / 10"
    by (simp add: spec_completion_mode_def)
  moreover have "AccumulatorCurve_calculate
      (AccumulatorCurve (examplePattern COMPLETION WEEKLY) (Some 0) 0 (1 / 10)) 483840000 =
      fl (3 / 10)"
    by (simp add: acc_eval examplePattern_def fl_eval)
  moreover have "fl (3 / 10) = Fin (5404319552844595 / 18014398509481984)"
    by (simp add: fl_eval)
  moreover have "AccumulatorCurve_calculate
      (AccumulatorCurve (examplePattern COMPLETION INTERVAL) (Some 0) 0 (1 / 10)) 86400000 =
      fl (9 / 10)"
    by (simp add: acc_eval examplePattern_def fl_eval)
  ultimately show ?thesis by blast
qed

section \<open>The factory and the recurrence pattern\<close>

lemma factory_accumulator:
  assumes "cfg_type config = ACCUMULATOR"
  shows "CurveFactory_create clk config checker task =
           (case cfg_recurrence config of
              None \<Rightarrow> Inl AccumulatorRequiresRecurrence
            | Some r \<Rightarrow>
                Inr (Accumulator
                  (AccumulatorCurve r
                     (case task of None \<Rightarrow> None | Some t \<Rightarrow> last_completed_at t)
                     (case task of
                        None \<Rightarrow> clk
                      | Some t \<Rightarrow> (case next_due_at t of Some d \<Rightarrow> d | None \<Rightarrow> clk))
                     (case cfg_buildup_rate config of Some x \<Rightarrow> x | None \<Rightarrow> 1 / 10))))"
  using assms by (simp split: option.splits)

lemma buildCurveConfig_injects:
  assumes "case partial of
             None \<Rightarrow> True
           | Some p \<Rightarrow> (cfg_type p = None \<or> cfg_type p = Some ACCUMULATOR) \<and>
                        cfg_recurrence p = None"
  shows "cfg_type (buildCurveConfig clk partial (Some r)) = ACCUMULATOR \<and>
         cfg_recurrence (buildCurveConfig clk partial (Some r)) = Some r"
  using assms by (auto simp: buildCurveConfig_def Let_def split: option.splits)

text \<open>
  C7, as amended. For a configuration of type accumulator the factory builds the curve
  exactly when the configuration itself has a recurrence field, and the curve uses that
  pattern, with the last completion and the next due date (else the clock) of the owning
  task; without the field the construction fails with the missing-field error, whatever
  the owning task holds. The pattern of a task is injected by the store when it builds the
  configuration to persist: an accumulator configuration (by explicit type or by default)
  without a recurrence field receives the recurrence pattern passed with it.
\<close>

theorem C7_factory_requires_config_recurrence:
  "(cfg_type config = ACCUMULATOR \<longrightarrow>
     CurveFactory_create clk config checker task =
       (case cfg_recurrence config of
          None \<Rightarrow> Inl AccumulatorRequiresRecurrence
        | Some r \<Rightarrow>
            Inr (Accumulator
              (AccumulatorCurve r
                 (case task of None \<Rightarrow> None | Some t \<Rightarrow> last_completed_at t)
                 (case task of
                    None \<Rightarrow> clk
                  | Some t \<Rightarrow> (case next_due_at t of Some d \<Rightarrow> d | None \<Rightarrow> clk))
                 (case cfg_buildup_rate config of Some x \<Rightarrow> x | None \<Rightarrow> 1 / 10))))) \<and>
   ((case partial of
       None \<Rightarrow> True
     | Some p \<Rightarrow> (cfg_type p = None \<or> cfg_type p = Some ACCUMULATOR) \<and>
                  cfg_recurrence p = None) \<longrightarrow>
     cfg_type (buildCurveConfig clk' partial (Some r')) = ACCUMULATOR \<and>
     cfg_recurrence (buildCurveConfig clk' partial (Some r')) = Some r')"
  using factory_accumulator buildCurveConfig_injects by blast

theorem C7_factory_requires_config_recurrence_witness:
  "CurveFactory_create 5
     ((exampleConfig ACCUMULATOR)\<lparr> cfg_recurrence := Some (examplePattern CALENDAR WEEKLY) \<rparr>)
     None (Some (exampleTask 1 (exampleConfig LINEAR))) =
     Inr (Accumulator
       (AccumulatorCurve (examplePattern CALENDAR WEEKLY) None 5 (1 / 10))) \<and>
   cfg_recurrence (buildCurveConfig 0 None (Some (examplePattern CALENDAR WEEKLY))) =
     Some (examplePattern CALENDAR WEEKLY)"
  using C7_factory_requires_config_recurrence
    [of "(exampleConfig ACCUMULATOR)\<lparr> cfg_recurrence := Some (examplePattern CALENDAR WEEKLY) \<rparr>"
        5 None "Some (exampleTask 1 (exampleConfig LINEAR))" None 0
        "examplePattern CALENDAR WEEKLY"]
  by (simp add: exampleConfig_def exampleTask_def)

text \<open>
  The claim as stated fails: the owning task has a recurrence pattern, the configuration has
  none, and the factory raises the missing-field error.
\<close>

theorem C7_factory_injects_counterexample:
  "recurrence_pattern
     ((exampleTask 1 (exampleConfig ACCUMULATOR))
        \<lparr> recurrence_pattern := Some (examplePattern CALENDAR WEEKLY) \<rparr>) =
     Some (examplePattern CALENDAR WEEKLY) \<and>
   cfg_recurrence (exampleConfig ACCUMULATOR) = None \<and>
   CurveFactory_create 0 (exampleConfig ACCUMULATOR) None
     (Some ((exampleTask 1 (exampleConfig ACCUMULATOR))
        \<lparr> recurrence_pattern := Some (examplePattern CALENDAR WEEKLY) \<rparr>)) =
     Inl AccumulatorRequiresRecurrence"
  by (simp add: exampleConfig_def exampleTask_def)

section \<open>The priority evaluator\<close>

lemma allDependenciesComplete_iff:
  "allDependenciesComplete db deps \<longleftrightarrow>
     (\<forall>d \<in> set deps. \<exists>dep. getTask db d = Some dep \<and> status dep = COMPLETED)"
  by (induction deps) (auto split: option.splits)

lemma isInTimeWindow_spec:
  "isInTimeWindow tz t ws we =
     spec_in_window (getHours tz t * 60 + getMinutes tz t) (parseTime ws) (parseTime we)"
  by (cases ws; cases we) (auto simp: isInTimeWindow_def spec_in_window_def parseTime_def Let_def)

lemma calculateLinearPriority_spec:
  "calculateLinearPriority task t =
     spec_linear (created_at task)
       (case deadline task of Some d \<Rightarrow> d | None \<Rightarrow> created_at task + 7 * msPerDay) t"
  unfolding calculateLinearPriority_def spec_linear_def Let_def msPerDay_def
  by (cases "deadline task") simp_all

lemma calculateTaskPriority_cascade:
  "calculateTaskPriority clk tz db task t =
     (if dependencies task \<noteq> [] \<and>
         (\<exists>d \<in> set (dependencies task).
            case getTask db d of None \<Rightarrow> True | Some dep \<Rightarrow> status dep \<noteq> COMPLETED)
      then Fin 0
      else if (case (window_start task, window_end task) of
                 (Some ws, Some we) \<Rightarrow>
                   \<not> spec_in_window (getHours tz t * 60 + getMinutes tz t)
                        (parseTime ws) (parseTime we)
               | _ \<Rightarrow> False)
      then Fin 0
      else
        (case CurveFactory_create clk (curve_config task) (Some db) (Some task) of
           Inr curve \<Rightarrow> curve_calculate db curve t
         | Inl e \<Rightarrow>
             spec_linear (created_at task)
               (case deadline task of Some d \<Rightarrow> d | None \<Rightarrow> created_at task + 7 * msPerDay)
               t))"
proof -
  have blocked:
    "(0 < length (dependencies task) \<and> \<not> allDependenciesComplete db (dependencies task)) =
     (dependencies task \<noteq> [] \<and>
      (\<exists>d \<in> set (dependencies task).
         case getTask db d of None \<Rightarrow> True | Some dep \<Rightarrow> status dep \<noteq> COMPLETED))"
    by (auto simp: allDependenciesComplete_iff split: option.splits)
  show ?thesis
  proof (cases "window_start task")
    case None
    then show ?thesis
      unfolding calculateTaskPriority_def blocked calculateLinearPriority_spec by simp
  next
    case ws: (Some ws)
    show ?thesis
    proof (cases "window_end task")
      case None
      with ws show ?thesis
        unfolding calculateTaskPriority_def blocked calculateLinearPriority_spec by simp
    next
      case (Some we)
      with ws show ?thesis
        unfolding calculateTaskPriority_def blocked calculateLinearPriority_spec
          isInTimeWindow_spec
        by simp
    qed
  qed
qed

text \<open>
  C3. The priority of an existing task at \<open>t\<close> is 0 when its dependency list is not empty
  and some dependency is missing or not completed; otherwise 0 when it has a time window
  that does not contain the local time of day of \<open>t\<close>; otherwise the value at \<open>t\<close> of the
  curve built from its configuration, and, exactly when the construction fails, the value
  of the linear formula from \<open>created_at\<close> to the deadline of the task (\<open>created_at\<close> plus
  seven days without one). No error leaves the evaluation of an existing task.
\<close>

theorem C3_priority_evaluator:
  "calculateTaskPriority clk tz db task t =
     (if dependencies task \<noteq> [] \<and>
         (\<exists>d \<in> set (dependencies task).
            case getTask db d of None \<Rightarrow> True | Some dep \<Rightarrow> status dep \<noteq> COMPLETED)
      then Fin 0
      else if (case (window_start task, window_end task) of
                 (Some ws, Some we) \<Rightarrow>
                   \<not> spec_in_window (getHours tz t * 60 + getMinutes tz t)
                        (parseTime ws) (parseTime we)
               | _ \<Rightarrow> False)
      then Fin 0
      else
        (case CurveFactory_create clk (curve_config task) (Some db) (Some task) of
           Inr curve \<Rightarrow> curve_calculate db curve t
         | Inl e \<Rightarrow>
             spec_linear (created_at task)
               (case deadline task of Some d \<Rightarrow> d | None \<Rightarrow> created_at task + 7 * msPerDay)
               t)) \<and>
   (getTask db i = Some task \<longrightarrow>
      calculatePriority clk tz db i (Some t) = Inr (calculateTaskPriority clk tz db task t))"
  using calculateTaskPriority_cascade [of clk tz db task t]
  by (simp add: calculatePriority_def)

lemma exampleDb_getTask_1: "getTask exampleDb 1 = Some (exampleTask 1 (linearConfig 0 20))"
  by (simp add: getTask_def exampleDb_def exampleTask_def)

theorem C3_priority_evaluator_witness:
  "calculateTaskPriority 0 0 exampleDb
     ((exampleTask 3 (linearConfig 0 10))\<lparr> dependencies := [1] \<rparr>) 5 = Fin 0 \<and>
   CurveFactory_create 0 (exampleConfig HARD_WINDOW) (Some exampleDb)
     (Some (exampleTask 4 (exampleConfig HARD_WINDOW))) = Inl HardWindowRequiresWindow \<and>
   calculateTaskPriority 0 0 exampleDb (exampleTask 4 (exampleConfig HARD_WINDOW)) 302400000 =
     Fin (1 / 2)"
proof -
  have open1: "status (exampleTask 1 (linearConfig 0 20)) \<noteq> COMPLETED"
    by (simp add: exampleTask_def)
  have fails: "CurveFactory_create 0 (exampleConfig HARD_WINDOW) (Some exampleDb)
      (Some (exampleTask 4 (exampleConfig HARD_WINDOW))) = Inl HardWindowRequiresWindow"
    by (simp add: exampleConfig_def)
  have a: "calculateTaskPriority 0 0 exampleDb
      ((exampleTask 3 (linearConfig 0 10))\<lparr> dependencies := [1] \<rparr>) 5 = Fin 0"
    using C3_priority_evaluator
      [where clk = 0 and tz = 0 and db = exampleDb and t = 5
         and task = "(exampleTask 3 (linearConfig 0 10))\<lparr> dependencies := [1] \<rparr>"]
      open1
    by (simp add: exampleDb_getTask_1 exampleTask_def del: One_nat_def)
  have b: "calculateTaskPriority 0 0 exampleDb (exampleTask 4 (exampleConfig HARD_WINDOW))
      302400000 = Fin (1 / 2)"
    using C3_priority_evaluator
      [where clk = 0 and tz = 0 and db = exampleDb and t = 302400000
         and task = "exampleTask 4 (exampleConfig HARD_WINDOW)"] fails
    by (simp add: exampleTask_def spec_linear_def msPerDay_def js_div_def)
  from a fails b show ?thesis by simp
qed

section \<open>Tasks by priority\<close>

lemma mset_insert_by: "mset (insert_by cmp x ys) = add_mset x (mset ys)"
  by (induction ys) auto

lemma mset_js_sort: "mset (js_sort cmp xs) = mset xs"
  by (induction xs) (auto simp: js_sort_def mset_insert_by)

lemma set_js_sort: "set (js_sort cmp xs) = set xs"
  using mset_js_sort [of cmp xs] by (metis set_mset_mset)

lemma length_js_sort: "length (js_sort cmp xs) = length xs"
  using mset_js_sort [of cmp xs] by (metis size_mset)

lemma js_gt_sub_iff:
  assumes "a \<noteq> NaN" and "b \<noteq> NaN"
  shows "js_gt (js_sub b a) (Fin 0) = js_lt a b"
  using assms by (cases a; cases b) (auto simp: js_gt_def js_sub_def)

lemma js_lt_asym: "js_lt a b \<Longrightarrow> \<not> js_lt b a"
  by (cases a; cases b) auto

lemma js_not_lt_trans:
  assumes "b \<noteq> NaN" and "\<not> js_lt a b" and "\<not> js_lt b c"
  shows "\<not> js_lt a c"
  using assms by (cases a; cases b; cases c) auto

lemma sorted_insert_by_priority:
  assumes "priority x \<noteq> NaN" and "\<forall>y \<in> set ys. priority y \<noteq> NaN"
    and "sorted_wrt priorityDescending ys"
  shows "sorted_wrt priorityDescending (insert_by byPriorityDesc x ys)"
  using assms
proof (induction ys)
  case Nil
  then show ?case by simp
next
  case (Cons y ys)
  have cmp: "js_gt (byPriorityDesc x y) (Fin 0) = js_lt (priority x) (priority y)"
    using Cons.prems by (simp add: byPriorityDesc_def js_gt_sub_iff)
  show ?case
  proof (cases "js_lt (priority x) (priority y)")
    case True
    have "set (insert_by byPriorityDesc x ys) = insert x (set ys)"
      using mset_insert_by [of byPriorityDesc x ys] by (metis set_mset_add_mset_insert set_mset_mset)
    moreover have "priorityDescending y x"
      using True by (simp add: priorityDescending_def js_lt_asym)
    ultimately show ?thesis
      using True cmp Cons by auto
  next
    case False
    have "priorityDescending x z" if "z \<in> set ys" for z
    proof -
      from Cons.prems that have "priorityDescending y z" by auto
      with False Cons.prems show ?thesis
        unfolding priorityDescending_def
        by (meson js_not_lt_trans list.set_intros(1))
    qed
    with False cmp Cons.prems show ?thesis
      by (auto simp: priorityDescending_def)
  qed
qed

lemma sorted_js_sort_priority:
  assumes "\<forall>y \<in> set xs. priority y \<noteq> NaN"
  shows "sorted_wrt priorityDescending (js_sort byPriorityDesc xs)"
  using assms
proof (induction xs)
  case Nil
  then show ?case by (simp add: js_sort_def)
next
  case (Cons x xs)
  then have "sorted_wrt priorityDescending (js_sort byPriorityDesc xs)" by simp
  moreover have "\<forall>y \<in> set (js_sort byPriorityDesc xs). priority y \<noteq> NaN"
    using Cons.prems by (simp add: set_js_sort)
  ultimately have "sorted_wrt priorityDescending
      (insert_by byPriorityDesc x (js_sort byPriorityDesc xs))"
    using Cons.prems by (intro sorted_insert_by_priority) auto
  then show ?case by (simp add: js_sort_def)
qed

lemma length_getTasks:
  "length (getTasks db flt) =
     (case flt of None \<Rightarrow> length (db_tasks db)
      | Some sts \<Rightarrow> length (filter (\<lambda>t. status t \<in> set sts) (db_tasks db)))"
  by (simp add: getTasks_def split: option.splits)

lemma getByPriority_unlimited:
  "getByPriority clk tz db None dt =
     js_sort byPriorityDesc
       (prioritized clk tz db (case dt of Some d \<Rightarrow> d | None \<Rightarrow> clk))"
  by (simp add: getByPriority_def prioritized_def Let_def)

text \<open>
  C10, as amended. With the limit \<open>0\<close>, \<open>getByPriority\<close> returns what it returns without a
  limit: all the open and in-progress tasks with their priorities (as many entries as
  there are such tasks), in descending order of priority when no priority is \<open>NaN\<close>.
\<close>

theorem C10_zero_limit_is_no_limit:
  "getByPriority clk tz db (Some 0) dt = getByPriority clk tz db None dt \<and>
   mset (getByPriority clk tz db (Some 0) dt) =
     mset (prioritized clk tz db (case dt of Some d \<Rightarrow> d | None \<Rightarrow> clk)) \<and>
   length (getByPriority clk tz db (Some 0) dt) =
     length (filter (\<lambda>t. status t = OPEN \<or> status t = IN_PROGRESS) (db_tasks db)) \<and>
   ((\<forall>e \<in> set (getByPriority clk tz db (Some 0) dt). priority e \<noteq> NaN) \<longrightarrow>
      sorted_wrt priorityDescending (getByPriority clk tz db (Some 0) dt))"
proof -
  let ?now = "case dt of Some d \<Rightarrow> d | None \<Rightarrow> clk"
  have zero: "getByPriority clk tz db (Some 0) dt = getByPriority clk tz db None dt"
    by (simp add: getByPriority_def Let_def)
  have all: "getByPriority clk tz db None dt =
      js_sort byPriorityDesc (prioritized clk tz db ?now)"
    by (rule getByPriority_unlimited)
  have len: "length (prioritized clk tz db ?now) =
      length (filter (\<lambda>t. status t = OPEN \<or> status t = IN_PROGRESS) (db_tasks db))"
    by (simp add: prioritized_def length_getTasks)
  have srt: "sorted_wrt priorityDescending (getByPriority clk tz db (Some 0) dt)"
    if "\<forall>e \<in> set (getByPriority clk tz db (Some 0) dt). priority e \<noteq> NaN"
    using that unfolding zero all
    by (intro sorted_js_sort_priority) (simp add: set_js_sort)
  show ?thesis
    using zero all len srt by (simp add: mset_js_sort length_js_sort)
qed

lemma exampleDb_tasks:
  "getTasks exampleDb (Some [OPEN, IN_PROGRESS]) =
     [exampleTask 1 (linearConfig 0 20), exampleTask 2 (linearConfig 0 10)]"
  by (simp add: getTasks_def exampleDb_def exampleTask_def)

lemma linearConfig_priority:
  assumes "s < e" and "s \<le> t" and "t \<le> e"
  shows "calculateTaskPriority clk tz db (exampleTask i (linearConfig s e)) t =
           Fin (real_of_int (t - s) / real_of_int (e - s))"
  using assms
  by (simp add: calculateTaskPriority_def exampleTask_def linearConfig_def exampleConfig_def
      new_LinearCurve_def sum_map_right_def js_div_def)

lemma exampleDb_by_priority:
  "getByPriority 0 0 exampleDb None (Some 5) =
     [withPriority (exampleTask 2 (linearConfig 0 10)) (Fin (1 / 2)),
      withPriority (exampleTask 1 (linearConfig 0 20)) (Fin (1 / 4))]"
  by (simp add: getByPriority_def exampleDb_tasks linearConfig_priority js_sort_def
      byPriorityDesc_def withPriority_def Task.defs TaskWithPriority.defs js_sub_def js_gt_def)

theorem C10_zero_limit_is_no_limit_witness:
  "getByPriority 0 0 exampleDb (Some 0) (Some 5) =
     [withPriority (exampleTask 2 (linearConfig 0 10)) (Fin (1 / 2)),
      withPriority (exampleTask 1 (linearConfig 0 20)) (Fin (1 / 4))] \<and>
   sorted_wrt priorityDescending (getByPriority 0 0 exampleDb (Some 0) (Some 5))"
proof -
  note c = C10_zero_limit_is_no_limit [of 0 0 exampleDb "Some 5"]
  from c have eq: "getByPriority 0 0 exampleDb (Some 0) (Some 5) =
      getByPriority 0 0 exampleDb None (Some 5)" by blast
  have "\<forall>e \<in> set (getByPriority 0 0 exampleDb (Some 0) (Some 5)). priority e \<noteq> NaN"
    unfolding eq exampleDb_by_priority
    by (simp add: withPriority_def Task.defs TaskWithPriority.defs)
  with c have "sorted_wrt priorityDescending (getByPriority 0 0 exampleDb (Some 0) (Some 5))"
    by blast
  with eq exampleDb_by_priority show ?thesis by simp
qed

lemma nanDb_tasks:
  "getTasks nanDb (Some [OPEN, IN_PROGRESS]) =
     [(exampleTask 11 (linearConfig 0 60))\<lparr> created_at := 20 \<rparr>,
      (exampleTask 12 (linearConfig 15 15))\<lparr> deadline := Some 15, created_at := 15 \<rparr>,
      exampleTask 13 (linearConfig 0 20)]"
  by (simp add: getTasks_def nanDb_def exampleTask_def)

lemma nanDb_priorities:
  "calculateTaskPriority 0 0 nanDb ((exampleTask 11 (linearConfig 0 60))\<lparr> created_at := 20 \<rparr>) 15 =
     Fin (1 / 4)"
  "calculateTaskPriority 0 0 nanDb
     ((exampleTask 12 (linearConfig 15 15))\<lparr> deadline := Some 15, created_at := 15 \<rparr>) 15 = NaN"
  "calculateTaskPriority 0 0 nanDb (exampleTask 13 (linearConfig 0 20)) 15 = Fin (3 / 4)"
proof -
  show "calculateTaskPriority 0 0 nanDb
      ((exampleTask 11 (linearConfig 0 60))\<lparr> created_at := 20 \<rparr>) 15 = Fin (1 / 4)"
    by (simp add: calculateTaskPriority_def exampleTask_def linearConfig_def exampleConfig_def
        new_LinearCurve_def sum_map_right_def js_div_def)
  show "calculateTaskPriority 0 0 nanDb
      ((exampleTask 12 (linearConfig 15 15))\<lparr> deadline := Some 15, created_at := 15 \<rparr>) 15 =
      NaN"
    by (simp add: calculateTaskPriority_def exampleTask_def linearConfig_def exampleConfig_def
        new_LinearCurve_def sum_map_right_def js_div_def calculateLinearPriority_def)
  show "calculateTaskPriority 0 0 nanDb (exampleTask 13 (linearConfig 0 20)) 15 = Fin (3 / 4)"
    by (simp add: calculateTaskPriority_def exampleTask_def linearConfig_def exampleConfig_def
        new_LinearCurve_def sum_map_right_def js_div_def)
qed

lemma nanDb_by_priority:
  "getByPriority 0 0 nanDb (Some 0) (Some 15) =
     [withPriority ((exampleTask 11 (linearConfig 0 60))\<lparr> created_at := 20 \<rparr>) (Fin (1 / 4)),
      withPriority ((exampleTask 12 (linearConfig 15 15))
                      \<lparr> deadline := Some 15, created_at := 15 \<rparr>) NaN,
      withPriority (exampleTask 13 (linearConfig 0 20)) (Fin (3 / 4))]"
  by (simp add: getByPriority_def nanDb_tasks nanDb_priorities js_sort_def
      byPriorityDesc_def withPriority_def Task.defs TaskWithPriority.defs js_sub_def js_gt_def)

text \<open>
  C10 as stated does not hold. The task 12 of \<open>nanDb\<close> has a linear configuration whose
  start is its deadline, so that the construction of its curve fails, and its deadline is
  its creation time 15: at the instant 15 the fallback divides \<open>0\<close> by \<open>0\<close> and its
  priority is \<open>NaN\<close>. The store lists it between the tasks 11 and 13, of priorities \<open>1/4\<close>
  and \<open>3/4\<close>. The comparator answers \<open>NaN\<close>, which counts as \<open>0\<close>, for the pairs 12, 11
  and 13, 12 of neighbours: the array is in order for the sort, which compares no other
  pair, and stays as it is, with the priority \<open>1/4\<close> before the priority \<open>3/4\<close>.
\<close>

theorem C10_nan_priority_counterexample:
  "getByPriority 0 0 nanDb (Some 0) (Some 15) =
     [withPriority ((exampleTask 11 (linearConfig 0 60))\<lparr> created_at := 20 \<rparr>) (Fin (1 / 4)),
      withPriority ((exampleTask 12 (linearConfig 15 15))
                      \<lparr> deadline := Some 15, created_at := 15 \<rparr>) NaN,
      withPriority (exampleTask 13 (linearConfig 0 20)) (Fin (3 / 4))] \<and>
   \<not> sorted_wrt priorityDescending (getByPriority 0 0 nanDb (Some 0) (Some 15))"
  unfolding nanDb_by_priority
  by (simp add: priorityDescending_def withPriority_def Task.defs TaskWithPriority.defs)

section \<open>Dependency validation\<close>

lemma dependencyEdges_successors:
  "set (case getTask db c of Some task \<Rightarrow> dependencies task | None \<Rightarrow> []) =
     dependencyEdges db `` {c}"
  by (cases "getTask db c") (auto simp: dependencyEdges_def)

lemma leaves_closed_set:
  assumes closed: "E `` V \<subseteq> V \<union> Q" and path: "(v, x) \<in> E\<^sup>*" and "v \<in> V"
  shows "x \<in> V \<or> x \<in> E\<^sup>* `` Q"
  using path
proof (induction rule: rtrancl_induct)
  case base
  from \<open>v \<in> V\<close> show ?case by simp
next
  case (step y z)
  from step.IH show ?case
  proof
    assume "y \<in> V"
    with step.hyps(2) closed have "z \<in> V \<union> Q" by auto
    then show ?thesis by auto
  next
    assume "y \<in> E\<^sup>* `` Q"
    with step.hyps(2) show ?thesis by (auto intro: rtrancl_into_rtrancl)
  qed
qed

lemma cycleSearch_reachable:
  assumes "x \<notin> visited"
    and "dependencyEdges db `` visited \<subseteq> visited \<union> set queue"
  shows "cycleSearch db x visited queue \<longleftrightarrow> x \<in> (dependencyEdges db)\<^sup>* `` set queue"
  using assms
proof (induction db x visited queue rule: cycleSearch.induct)
  case (1 db x visited)
  show ?case by simp
next
  case (2 db x visited current queue)
  let ?E = "dependencyEdges db"
  let ?deps = "case getTask db current of Some task \<Rightarrow> dependencies task | None \<Rightarrow> []"
  show ?case
  proof (cases "current = x")
    case True
    then show ?thesis by auto
  next
    case differs: False
    show ?thesis
    proof (cases "current \<in> visited")
      case True
      with "2.prems" have closed: "?E `` visited \<subseteq> visited \<union> set queue" by auto
      from "2.IH"(1) [OF differs True "2.prems"(1) closed]
      have ih: "cycleSearch db x visited queue \<longleftrightarrow> x \<in> ?E\<^sup>* `` set queue" .
      have "x \<in> ?E\<^sup>* `` set queue" if "(current, x) \<in> ?E\<^sup>*"
        using leaves_closed_set [OF closed that True] "2.prems"(1) by simp
      then have "x \<in> ?E\<^sup>* `` set (current # queue) \<longleftrightarrow> x \<in> ?E\<^sup>* `` set queue"
        by auto
      with ih differs True show ?thesis by simp
    next
      case False
      have succ: "set ?deps = ?E `` {current}" by (rule dependencyEdges_successors)
      have notin: "x \<notin> insert current visited" using differs "2.prems"(1) by auto
      have closed: "?E `` insert current visited \<subseteq>
          insert current visited \<union> set (queue @ ?deps)"
        unfolding set_append succ using "2.prems"(2) by auto
      from "2.IH"(2) [OF differs False notin closed]
      have ih: "cycleSearch db x (insert current visited) (queue @ ?deps) \<longleftrightarrow>
          x \<in> ?E\<^sup>* `` set (queue @ ?deps)" .
      have "(current, x) \<in> ?E\<^sup>* \<longleftrightarrow> x \<in> ?E\<^sup>* `` (?E `` {current})"
      proof
        assume "(current, x) \<in> ?E\<^sup>*"
        with differs obtain y where "(current, y) \<in> ?E" and "(y, x) \<in> ?E\<^sup>*"
          by (auto elim: converse_rtranclE)
        then show "x \<in> ?E\<^sup>* `` (?E `` {current})" by blast
      next
        assume "x \<in> ?E\<^sup>* `` (?E `` {current})"
        then obtain y where "(current, y) \<in> ?E" and "(y, x) \<in> ?E\<^sup>*" by blast
        then show "(current, x) \<in> ?E\<^sup>*"
          by (rule converse_rtrancl_into_rtrancl)
      qed
      then have "x \<in> ?E\<^sup>* `` set (current # queue) \<longleftrightarrow> x \<in> ?E\<^sup>* `` set (queue @ ?deps)"
        unfolding set_append succ by auto
      with ih differs False show ?thesis by simp
    qed
  qed
qed

lemma firstMissing_None: "firstMissing db deps = None \<longleftrightarrow> (\<forall>d \<in> set deps. getTask db d \<noteq> None)"
  by (induction deps) (auto split: option.splits)

lemma firstMissing_Some:
  "firstMissing db deps = Some d \<Longrightarrow> d \<in> set deps \<and> getTask db d = None"
  by (induction deps) (auto split: option.splits)

lemma validateDependencies_missing:
  assumes "\<exists>d \<in> set deps. getTask db d = None"
  shows "\<exists>d \<in> set deps. getTask db d = None \<and>
           validateDependencies db deps excl = Inl (DependencyNotFound d)"
proof -
  from assms have "firstMissing db deps \<noteq> None" by (auto simp: firstMissing_None)
  then obtain d where d: "firstMissing db deps = Some d" by auto
  from firstMissing_Some [OF d] d show ?thesis
    by (auto simp: validateDependencies_def)
qed

lemma validateDependencies_resolved:
  assumes "\<forall>d \<in> set deps. getTask db d \<noteq> None"
  shows "validateDependencies db deps (Some x) =
           (if x \<in> (dependencyEdges db)\<^sup>* `` set deps then Inl CircularDependency else Inr ())"
proof -
  from assms have "firstMissing db deps = None" by (simp add: firstMissing_None)
  moreover have "cycleSearch db x {} deps \<longleftrightarrow> x \<in> (dependencyEdges db)\<^sup>* `` set deps"
    by (rule cycleSearch_reachable) auto
  ultimately show ?thesis by (simp add: validateDependencies_def)
qed

lemma update_circular:
  assumes "u_dependencies updates = Some deps"
    and "\<forall>d \<in> set deps. getTask db d \<noteq> None"
    and "b \<in> set deps" and "(b, a) \<in> (dependencyEdges db)\<^sup>*"
  shows "update clk db a updates = Inl CircularDependency"
proof -
  from assms(3) have "0 < length deps" by (cases deps) auto
  moreover from assms(3,4) have "a \<in> (dependencyEdges db)\<^sup>* `` set deps" by auto
  ultimately show ?thesis
    using assms(1) validateDependencies_resolved [OF assms(2), of a]
    by (simp add: update_def)
qed

text \<open>
  C6. Validation with \<open>excludeTaskId = x\<close> fails with the dependency-missing error, for an
  id of the list that does not resolve, exactly when some id of the list does not resolve;
  when all resolve it fails with the circular-dependency error exactly when \<open>x\<close> is
  reachable from the list along the dependency edges of the store, and succeeds otherwise.
  In particular an update of task \<open>x\<close> whose new dependencies all resolve and include a
  task \<open>b\<close> from which \<open>x\<close> is reachable raises the circular-dependency error.
\<close>

theorem C6_dependency_validation:
  "((\<exists>d \<in> set deps. getTask db d = None) \<longrightarrow>
      (\<exists>d \<in> set deps. getTask db d = None \<and>
         validateDependencies db deps (Some x) = Inl (DependencyNotFound d))) \<and>
   ((\<forall>d \<in> set deps. getTask db d \<noteq> None) \<longrightarrow>
      validateDependencies db deps (Some x) =
        (if x \<in> (dependencyEdges db)\<^sup>* `` set deps then Inl CircularDependency
         else Inr ())) \<and>
   (u_dependencies updates = Some deps \<and> (\<forall>d \<in> set deps. getTask db d \<noteq> None) \<and>
    b \<in> set deps \<and> (b, x) \<in> (dependencyEdges db)\<^sup>* \<longrightarrow>
      update clk db x updates = Inl CircularDependency)"
  using validateDependencies_missing [of deps db "Some x"]
    validateDependencies_resolved [of deps db x]
    update_circular [of updates deps db b x clk]
  by blast

lemma chainDb_getTask:
  "getTask chainDb 1 = Some (exampleTask 1 (linearConfig 0 20))"
  "getTask chainDb 2 = Some ((exampleTask 2 (linearConfig 0 10))\<lparr> dependencies := [1] \<rparr>)"
  "getTask chainDb 3 = None"
  by (simp_all add: getTask_def chainDb_def exampleTask_def)

theorem C6_dependency_validation_witness:
  "validateDependencies chainDb [3] (Some 1) = Inl (DependencyNotFound 3) \<and>
   validateDependencies chainDb [2] (Some 1) = Inl CircularDependency \<and>
   update 0 chainDb 1 (noUpdates\<lparr> u_dependencies := Some [2] \<rparr>) = Inl CircularDependency"
proof -
  have edge: "(2, 1) \<in> (dependencyEdges chainDb)\<^sup>*"
    by (rule r_into_rtrancl) (simp add: dependencyEdges_def chainDb_getTask exampleTask_def)
  have a: "validateDependencies chainDb [3] (Some 1) = Inl (DependencyNotFound 3)"
    using C6_dependency_validation [of "[3]" chainDb 1] by (simp add: chainDb_getTask)
  have b: "validateDependencies chainDb [2] (Some 1) = Inl CircularDependency"
    using C6_dependency_validation [of "[2]" chainDb 1] edge by (simp add: chainDb_getTask)
  have c: "update 0 chainDb 1 (noUpdates\<lparr> u_dependencies := Some [2] \<rparr>) =
      Inl CircularDependency"
    using C6_dependency_validation
      [of "[2]" chainDb 1 "noUpdates\<lparr> u_dependencies := Some [2] \<rparr>" 2 0] edge
    by (simp add: chainDb_getTask)
  from a b c show ?thesis by simp
qed

section \<open>Recurrence: the next due date\<close>

lemma msPerDay_pos: "0 < msPerDay"
  by (simp add: msPerDay_def)

lemma localDay_addDays: "localDay tz (addDays t n) = localDay tz t + n"
proof -
  have "(t + n * msPerDay + tz) div msPerDay = (t + tz + n * msPerDay) div msPerDay"
    by (simp add: algebra_simps)
  also have "\<dots> = (t + tz) div msPerDay + n"
    using msPerDay_pos by simp
  finally show ?thesis by (simp add: localDay_def addDays_def)
qed

lemma getDay_addDays: "getDay tz (addDays t n) = (getDay tz t + n) mod 7"
  by (simp add: getDay_def localDay_addDays mod_simps algebra_simps)

lemma getDay_range: "0 \<le> getDay tz t \<and> getDay tz t \<le> 6"
  by (simp add: getDay_def)

lemma startOfDay_bounds: "startOfDay tz t \<le> t \<and> t - msPerDay < startOfDay tz t"
proof -
  have "0 \<le> (t + tz) mod msPerDay" and "(t + tz) mod msPerDay < msPerDay"
    using msPerDay_pos by simp_all
  then show ?thesis by (simp add: startOfDay_def)
qed

lemma startOfDay_later_day:
  assumes "1 \<le> n"
  shows "t < startOfDay tz (addDays t n)"
proof -
  from assms msPerDay_pos have "msPerDay \<le> n * msPerDay"
    using mult_right_mono [of 1 n msPerDay] by simp
  then have "t \<le> addDays t n - msPerDay" by (simp add: addDays_def)
  also have "\<dots> < startOfDay tz (addDays t n)"
    using startOfDay_bounds [of tz "addDays t n"] by simp
  finally show ?thesis .
qed

lemma addDays_mono: "m \<le> n \<Longrightarrow> addDays t m \<le> addDays t n"
  using msPerDay_pos by (simp add: addDays_def mult_right_mono)

lemma addDays_addDays: "addDays (addDays t a) b = addDays t (a + b)"
  by (simp add: addDays_def algebra_simps)

lemma daysInMonth_bounds: "28 \<le> daysInMonth y m \<and> daysInMonth y m \<le> 31"
  by (simp add: daysInMonth_def)

lemma setNextMonth_days:
  "\<exists>n. 28 \<le> n \<and> n \<le> 31 \<and> setNextMonth tz t = addDays t n"
proof -
  obtain y m where ym: "yearMonthOfDay (localDay tz t) = (y, m)"
    by (cases "yearMonthOfDay (localDay tz t)")
  with daysInMonth_bounds [of y m] show ?thesis
    by (intro exI [of _ "daysInMonth y m"]) (simp add: setNextMonth_def)
qed

text \<open>Dates within the range of time values.\<close>

lemma newDate_valid: "validTime t \<Longrightarrow> newDate t = Date t"
  by (simp add: newDate_def)

lemma newDate_invalid: "\<not> validTime t \<Longrightarrow> newDate t = InvalidDate"
  by (simp add: newDate_def)

lemma validTime_between:
  assumes "validTime a" and "validTime b" and "a \<le> t" and "t \<le> b"
  shows "validTime t"
  using assms by (simp add: validTime_def)

lemma validTime_example: "validTime 0" "validTime 1000" "validTime 86401000"
  by (simp_all add: validTime_def maxTime_def)

lemma nextDueDays_at_least: "31 \<le> nextDueDays p"
  by (simp add: nextDueDays_def split: option.splits)

lemma validTime_within:
  assumes "validTime t" and "validTime (t + nextDueDays p * msPerDay)"
    and "t \<le> x" and "x \<le> addDays t n" and "n \<le> nextDueDays p"
  shows "validTime x"
proof -
  from assms(5) msPerDay_pos have "n * msPerDay \<le> nextDueDays p * msPerDay"
    by (simp add: mult_right_mono)
  with assms(4) have "x \<le> t + nextDueDays p * msPerDay" by (simp add: addDays_def)
  with assms(1-3) show ?thesis by (rule validTime_between)
qed

text \<open>The weekly search.\<close>

lemma weeklySearch_value:
  assumes "validTime next" and "validTime (addDays next (int n))"
  shows "\<exists>k\<le>n. weeklySearch tz days (Date next) n = Date (addDays next (int k))"
  using assms
proof (induction n arbitrary: "next")
  case 0
  then show ?case by (simp add: addDays_def)
next
  case (Suc n)
  show ?case
  proof (cases "getDay tz next \<in> set days")
    case True
    then have "weeklySearch tz days (Date next) (Suc n) = Date (addDays next (int 0))"
      by (simp add: addDays_def)
    then show ?thesis by blast
  next
    case False
    have le1: "next \<le> addDays next 1"
      using addDays_mono [of 0 1 "next"] by (simp add: addDays_def)
    have le2: "addDays next 1 \<le> addDays next (int (Suc n))"
      by (rule addDays_mono) simp
    have v: "validTime (addDays next 1)"
      by (rule validTime_between [OF Suc.prems(1) Suc.prems(2) le1 le2])
    have "validTime (addDays (addDays next 1) (int n))"
      using Suc.prems(2) by (simp add: addDays_addDays algebra_simps)
    from Suc.IH [OF v this] obtain k where "k \<le> n"
      and "weeklySearch tz days (Date (addDays next 1)) n =
           Date (addDays (addDays next 1) (int k))" by blast
    with False v have "Suc k \<le> Suc n \<and> weeklySearch tz days (Date next) (Suc n) =
        Date (addDays next (int (Suc k)))"
      by (simp add: newDate_valid addDays_addDays algebra_simps)
    then show ?thesis by blast
  qed
qed

lemma weeklySearch_finds:
  assumes "validTime next" and "validTime (addDays next (int n - 1))"
    and "\<exists>j<n. getDay tz (addDays next (int j)) \<in> set days"
  shows "\<exists>k<n. weeklySearch tz days (Date next) n = Date (addDays next (int k)) \<and>
           getDay tz (addDays next (int k)) \<in> set days \<and>
           (\<forall>j<k. getDay tz (addDays next (int j)) \<notin> set days)"
  using assms
proof (induction n arbitrary: "next")
  case 0
  then show ?case by simp
next
  case (Suc n)
  show ?case
  proof (cases "getDay tz next \<in> set days")
    case True
    then have "weeklySearch tz days (Date next) (Suc n) = Date (addDays next (int 0)) \<and>
        getDay tz (addDays next (int 0)) \<in> set days \<and>
        (\<forall>j<0. getDay tz (addDays next (int j)) \<notin> set days)"
      by (simp add: addDays_def)
    then show ?thesis by blast
  next
    case False
    from Suc.prems obtain j where j: "j < Suc n"
      and hit: "getDay tz (addDays next (int j)) \<in> set days" by blast
    from False hit have "j \<noteq> 0" by (auto simp: addDays_def intro: ccontr)
    then obtain j' where j': "j = Suc j'" by (cases j) auto
    with j have n: "1 \<le> int n" by simp
    have le1: "next \<le> addDays next 1"
      using addDays_mono [of 0 1 "next"] by (simp add: addDays_def)
    have le2: "addDays next 1 \<le> addDays next (int n)"
      using n by (rule addDays_mono)
    from Suc.prems(2) have vn: "validTime (addDays next (int n))" by simp
    have v: "validTime (addDays next 1)"
      by (rule validTime_between [OF Suc.prems(1) vn le1 le2])
    have v': "validTime (addDays (addDays next 1) (int n - 1))"
      using vn by (simp add: addDays_addDays)
    from j j' hit have "\<exists>j<n. getDay tz (addDays (addDays next 1) (int j)) \<in> set days"
      by (auto simp: addDays_addDays algebra_simps intro!: exI [of _ j'])
    from Suc.IH [OF v v' this] obtain k where k: "k < n"
      and res: "weeklySearch tz days (Date (addDays next 1)) n =
                Date (addDays (addDays next 1) (int k))"
      and found: "getDay tz (addDays (addDays next 1) (int k)) \<in> set days"
      and first: "\<forall>j<k. getDay tz (addDays (addDays next 1) (int j)) \<notin> set days"
      by blast
    have shift: "addDays (addDays next 1) (int m) = addDays next (int (Suc m))" for m
      by (simp add: addDays_addDays algebra_simps)
    have "\<forall>j<Suc k. getDay tz (addDays next (int j)) \<notin> set days"
    proof (intro allI impI)
      fix j assume "j < Suc k"
      show "getDay tz (addDays next (int j)) \<notin> set days"
      proof (cases j)
        case 0
        with False show ?thesis by (simp add: addDays_def)
      next
        case (Suc m)
        with \<open>j < Suc k\<close> first shift [of m] show ?thesis by auto
      qed
    qed
    with k res found False v shift [of k] show ?thesis
      by (intro exI [of _ "Suc k"]) (simp add: newDate_valid)
  qed
qed

lemma weekday_within_week:
  assumes "0 \<le> d" and "d \<le> 6"
  shows "\<exists>j<7. getDay tz (addDays t (int j)) = d"
proof -
  let ?j = "nat ((d - getDay tz t) mod 7)"
  have "?j < 7" by simp
  moreover have "getDay tz (addDays t (int ?j)) = d"
    using assms getDay_range [of tz t] by (simp add: getDay_addDays) presburger
  ultimately show ?thesis by blast
qed

text \<open>The interval loop.\<close>

lemma notAfter_invalid: "notAfter a InvalidDate = False"
  by (cases a) simp_all

lemma advanceInterval_invalid:
  "advanceInterval step now InvalidDate = Some InvalidDate"
  "advanceInterval step InvalidDate next = Some next"
proof -
  show "advanceInterval step now InvalidDate = Some InvalidDate"
    by (subst advanceInterval.simps) simp
  show "advanceInterval step InvalidDate next = Some next"
    by (subst advanceInterval.simps) (simp add: notAfter_invalid)
qed

lemma advanceInterval_forward:
  assumes "0 < step"
  shows "\<exists>r. advanceInterval step (Date now) (Date a) = Some r"
proof (induction "nat (now + 1 - a)" arbitrary: a rule: less_induct)
  case less
  show ?case
  proof (cases "a \<le> now")
    case False
    then show ?thesis by (subst advanceInterval.simps) simp
  next
    case True
    show ?thesis
    proof (cases "validTime (a + step)")
      case False
      with True show ?thesis
        by (subst advanceInterval.simps) (simp add: newDate_invalid advanceInterval_invalid)
    next
      case valid: True
      from True assms have "nat (now + 1 - (a + step)) < nat (now + 1 - a)" by simp
      from less [OF this] obtain r where "advanceInterval step (Date now) (Date (a + step)) = Some r"
        by blast
      with True valid show ?thesis
        by (subst advanceInterval.simps) (simp add: newDate_valid)
    qed
  qed
qed

lemma advanceInterval_backward:
  assumes "step < 0"
  shows "\<exists>r. advanceInterval step (Date now) (Date a) = Some r"
proof (induction "nat (a + maxTime + 1)" arbitrary: a rule: less_induct)
  case less
  show ?case
  proof (cases "a \<le> now")
    case False
    then show ?thesis by (subst advanceInterval.simps) simp
  next
    case True
    show ?thesis
    proof (cases "validTime (a + step)")
      case False
      with True show ?thesis
        by (subst advanceInterval.simps) (simp add: newDate_invalid advanceInterval_invalid)
    next
      case valid: True
      then have "- maxTime \<le> a + step" by (simp add: validTime_def)
      with assms have "nat (a + step + maxTime + 1) < nat (a + maxTime + 1)" by simp
      from less [OF this] obtain r where "advanceInterval step (Date now) (Date (a + step)) = Some r"
        by blast
      with True valid show ?thesis
        by (subst advanceInterval.simps) (simp add: newDate_valid)
    qed
  qed
qed

lemma advanceInterval_returns:
  assumes "step \<noteq> 0"
  shows "\<exists>r. advanceInterval step now next = Some r"
proof (cases now)
  case InvalidDate
  then show ?thesis by (simp add: advanceInterval_invalid)
next
  case (Date t)
  show ?thesis
  proof (cases "next")
    case InvalidDate
    then show ?thesis by (simp add: advanceInterval_invalid)
  next
    case nx: (Date a)
    from assms consider "0 < step" | "step < 0" by linarith
    then show ?thesis
      using advanceInterval_forward [of step t a] advanceInterval_backward [of step t a]
        Date nx by cases simp_all
  qed
qed

lemma advanceInterval_reaches:
  assumes "0 < step" and "validTime a" and "validTime now"
  shows "\<exists>n. advanceInterval step (Date now) (Date a) = Some (newDate (a + int n * step)) \<and>
           now < a + int n * step \<and> (\<forall>m<n. a + int m * step \<le> now)"
  using assms(2)
proof (induction "nat (now + 1 - a)" arbitrary: a rule: less_induct)
  case less
  show ?case
  proof (cases "a \<le> now")
    case False
    with less.prems have "advanceInterval step (Date now) (Date a) =
        Some (newDate (a + int 0 * step))"
      by (subst advanceInterval.simps) (simp add: newDate_valid)
    with False show ?thesis by (intro exI [of _ 0]) simp
  next
    case True
    show ?thesis
    proof (cases "validTime (a + step)")
      case False
      from less.prems assms(1) have "- maxTime \<le> a + step" by (simp add: validTime_def)
      with False have "maxTime < a + step" by (simp add: validTime_def)
      with assms(3) have later: "now < a + step" by (simp add: validTime_def)
      from True False have "advanceInterval step (Date now) (Date a) =
          Some (newDate (a + int 1 * step))"
        by (subst advanceInterval.simps) (simp add: newDate_invalid advanceInterval_invalid)
      with later True show ?thesis by (intro exI [of _ 1]) simp
    next
      case valid: True
      from True assms(1) have "nat (now + 1 - (a + step)) < nat (now + 1 - a)" by simp
      from less.hyps [OF this valid] obtain n where
        res: "advanceInterval step (Date now) (Date (a + step)) =
              Some (newDate (a + step + int n * step))"
        and after: "now < a + step + int n * step"
        and before: "\<forall>m<n. a + step + int m * step \<le> now" by blast
      from True valid res have "advanceInterval step (Date now) (Date a) =
          Some (newDate (a + int (Suc n) * step))"
        by (subst advanceInterval.simps) (simp add: newDate_valid algebra_simps)
      moreover from after have "now < a + int (Suc n) * step" by (simp add: algebra_simps)
      moreover have "\<forall>m<Suc n. a + int m * step \<le> now"
      proof (intro allI impI)
        fix m assume "m < Suc n"
        show "a + int m * step \<le> now"
        proof (cases m)
          case 0
          with True show ?thesis by simp
        next
          case (Suc m')
          with \<open>m < Suc n\<close> before show ?thesis by (auto simp: algebra_simps)
        qed
      qed
      ultimately show ?thesis by blast
    qed
  qed
qed

lemma unitDays_pos: "1 \<le> unitDays u"
  by (cases u) (simp_all add: unitDays_def)

lemma intervalAndUnit_Some:
  "intervalAndUnit p = Some (i, u) \<longleftrightarrow> interval p = Some i \<and> i \<noteq> 0 \<and> runit p = Some u"
  by (auto simp: intervalAndUnit_def split: option.splits)

lemma nonEmptyDaysOfWeek_Some:
  "nonEmptyDaysOfWeek p = Some days \<longleftrightarrow> daysOfWeek p = Some days \<and> days \<noteq> []"
  by (auto simp: nonEmptyDaysOfWeek_def split: option.splits)

lemma interval_step_pos:
  assumes "1 \<le> i"
  shows "0 < i * unitDays u * msPerDay"
proof -
  from assms unitDays_pos [of u] have "0 < i * unitDays u" by (simp add: zero_less_mult_iff)
  with msPerDay_pos show ?thesis by (simp add: zero_less_mult_iff)
qed

lemma interval_step_nonzero:
  assumes "i \<noteq> 0"
  shows "i * unitDays u * msPerDay \<noteq> 0"
  using assms unitDays_pos [of u] msPerDay_pos by simp

lemma calculateNextDue_weekly:
  assumes "recurrence_pattern task = Some p" and "mode p = CALENDAR" and "rtype p = WEEKLY"
    and "daysOfWeek p = Some days" and "days \<noteq> []"
  shows "calculateNextDue tz task d =
           Some (Inr (weeklySearch tz days (setMidnight tz (setDateBy d 1)) 7))"
proof -
  from assms(4,5) have "nonEmptyDaysOfWeek p = Some days"
    by (simp add: nonEmptyDaysOfWeek_Some)
  with assms(1-3) show ?thesis by (simp add: calculateNextDue_def)
qed

lemma calculateNextDue_interval:
  assumes "recurrence_pattern task = Some p" and "mode p = CALENDAR" and "rtype p = INTERVAL"
    and "interval p = Some i" and "i \<noteq> 0" and "runit p = Some u"
  shows "calculateNextDue tz task d =
           map_option Inr
             (advanceInterval (i * unitDays u * msPerDay) d (newDate (anchorOf task p)))"
proof -
  from assms(4-6) have "intervalAndUnit p = Some (i, u)"
    by (simp add: intervalAndUnit_Some)
  with assms(1-3) show ?thesis by (simp add: calculateNextDue_def Let_def)
qed

lemma calendar_pattern_cases:
  obtains (daily) "rtype p = DAILY"
    | (weekdays) days where "rtype p = WEEKLY" "nonEmptyDaysOfWeek p = Some days"
    | (weekday) dw where "rtype p = WEEKLY" "nonEmptyDaysOfWeek p = None"
        "dayOfWeek p = Some dw"
    | (weekly_plain) "rtype p = WEEKLY" "nonEmptyDaysOfWeek p = None" "dayOfWeek p = None"
    | (monthly) "rtype p = MONTHLY"
    | (interval) i u where "rtype p = INTERVAL" "intervalAndUnit p = Some (i, u)"
    | (interval_plain) "rtype p = INTERVAL" "intervalAndUnit p = None"
    | (other) "rtype p = OTHER_TYPE"
  by (cases "rtype p"; cases "nonEmptyDaysOfWeek p"; cases "dayOfWeek p";
      cases "intervalAndUnit p") auto

lemma calculateNextDue_completion:
  assumes "recurrence_pattern task = Some p" and "mode p = COMPLETION"
  shows "calculateNextDue tz task d =
     Some (Inr (plusMs d
       ((if rtype p = DAILY then 1
         else if rtype p = WEEKLY then 7
         else if rtype p = MONTHLY then 30
         else if rtype p = INTERVAL then
           (case intervalAndUnit p of Some (i, u) \<Rightarrow> i * unitDays u | None \<Rightarrow> 7)
         else 7) * msPerDay)))"
  using assms by (simp add: calculateNextDue_def Let_def)

lemma calculateNextDue_weekday:
  assumes "recurrence_pattern task = Some p" and "mode p = CALENDAR" and "rtype p = WEEKLY"
    and "nonEmptyDaysOfWeek p = None" and "dayOfWeek p = Some dw"
  shows "calculateNextDue tz task (Date t) =
           Some (Inr (setMidnight tz (setDateBy (Date t)
             (if dw - getDay tz t \<le> 0 then dw - getDay tz t + 7 else dw - getDay tz t))))"
    and "calculateNextDue tz task InvalidDate = Some (Inr InvalidDate)"
  using assms by (simp_all add: calculateNextDue_def Let_def)

lemma calculateNextDue_returns:
  assumes "recurrence_pattern task = Some p"
  shows "\<exists>r. calculateNextDue tz task d = Some (Inr r)"
proof (cases "mode p")
  case COMPLETION
  with assms show ?thesis by (simp add: calculateNextDue_completion)
next
  case CALENDAR
  show ?thesis
  proof (cases p rule: calendar_pattern_cases)
    case daily
    with assms CALENDAR show ?thesis by (simp add: calculateNextDue_def)
  next
    case (weekdays days)
    with assms CALENDAR show ?thesis by (simp add: calculateNextDue_def)
  next
    case (weekday dw)
    with calculateNextDue_weekday [OF assms CALENDAR] show ?thesis by (cases d) simp_all
  next
    case weekly_plain
    with assms CALENDAR show ?thesis by (simp add: calculateNextDue_def)
  next
    case monthly
    with assms CALENDAR show ?thesis by (simp add: calculateNextDue_def)
  next
    case (interval i u)
    then have "i \<noteq> 0" by (simp add: intervalAndUnit_Some)
    from advanceInterval_returns [OF interval_step_nonzero [OF this, of u]]
    obtain r where "advanceInterval (i * unitDays u * msPerDay) d (newDate (anchorOf task p)) =
        Some r" by blast
    with assms CALENDAR interval show ?thesis by (simp add: calculateNextDue_def Let_def)
  next
    case interval_plain
    with assms CALENDAR show ?thesis by (simp add: calculateNextDue_def)
  next
    case other
    with assms CALENDAR show ?thesis by (simp add: calculateNextDue_def)
  qed
qed

lemma first_midnight:
  assumes "validTime t" and "validTime (addDays t 1)"
  shows "setMidnight tz (setDateBy (Date t) 1) = Date (startOfDay tz (addDays t 1))"
    and "validTime (startOfDay tz (addDays t 1))"
proof -
  have "t < startOfDay tz (addDays t 1)" by (rule startOfDay_later_day) simp
  then have le1: "t \<le> startOfDay tz (addDays t 1)" by simp
  have le2: "startOfDay tz (addDays t 1) \<le> addDays t 1"
    using startOfDay_bounds [of tz "addDays t 1"] by simp
  show v: "validTime (startOfDay tz (addDays t 1))"
    by (rule validTime_between [OF assms le1 le2])
  with assms show "setMidnight tz (setDateBy (Date t) 1) = Date (startOfDay tz (addDays t 1))"
    by (simp add: newDate_valid)
qed

text \<open>
  C9, as amended. The next-due computation returns for every recurrence pattern whose
  interval, when present, is at least 1, and every date. For a calendar weekly pattern with a non-empty list of weekdays in 0..6 and a
  completion instant that is a valid date seven days before the end of the range of
  dates or earlier, the search returns, at one of its seven iterations, the first day
  after the day of \<open>completedAt\<close> whose weekday is listed, an instant after \<open>completedAt\<close>.
  For a calendar interval pattern with interval at least 1 and a unit, a valid completion
  instant and a valid anchor (the creation time without one), the loop stops at the first
  instant after \<open>completedAt\<close> among the anchor plus multiples of the interval in days, and
  returns it when it is in the range of dates, an invalid date when it is not.
\<close>

theorem C9_next_due_terminates:
  assumes "recurrence_pattern task = Some p"
  shows
    "((\<forall>n. interval p = Some n \<longrightarrow> 1 \<le> n) \<longrightarrow>
        (\<exists>r. calculateNextDue tz task d = Some (Inr r))) \<and>
     (mode p = CALENDAR \<and> rtype p = WEEKLY \<and> daysOfWeek p = Some days \<and> days \<noteq> [] \<and>
      (\<forall>x \<in> set days. 0 \<le> x \<and> x \<le> 6) \<and>
      validTime completedAt \<and> validTime (addDays completedAt 7) \<longrightarrow>
        (\<exists>k<7. calculateNextDue tz task (Date completedAt) =
                  Some (Inr (Date (addDays (startOfDay tz (addDays completedAt 1)) (int k)))) \<and>
               getDay tz (addDays (startOfDay tz (addDays completedAt 1)) (int k)) \<in> set days \<and>
               (\<forall>j<k. getDay tz (addDays (startOfDay tz (addDays completedAt 1)) (int j))
                         \<notin> set days) \<and>
               completedAt < addDays (startOfDay tz (addDays completedAt 1)) (int k))) \<and>
     (mode p = CALENDAR \<and> rtype p = INTERVAL \<and> interval p = Some i \<and> 1 \<le> i \<and>
      runit p = Some u \<and> validTime completedAt \<and> validTime (anchorOf task p) \<longrightarrow>
        (\<exists>n. calculateNextDue tz task (Date completedAt) =
                Some (Inr (newDate (anchorOf task p + int n * (i * unitDays u * msPerDay)))) \<and>
             completedAt < anchorOf task p + int n * (i * unitDays u * msPerDay) \<and>
             (\<forall>m<n. anchorOf task p + int m * (i * unitDays u * msPerDay) \<le> completedAt)))"
proof (intro conjI impI)
  show "\<exists>r. calculateNextDue tz task d = Some (Inr r)"
    using assms by (rule calculateNextDue_returns)
next
  assume h: "mode p = CALENDAR \<and> rtype p = WEEKLY \<and> daysOfWeek p = Some days \<and> days \<noteq> [] \<and>
      (\<forall>x \<in> set days. 0 \<le> x \<and> x \<le> 6) \<and>
      validTime completedAt \<and> validTime (addDays completedAt 7)"
  let ?first = "startOfDay tz (addDays completedAt 1)"
  from h have vt: "validTime completedAt" and v7: "validTime (addDays completedAt 7)"
    by simp_all
  have "completedAt \<le> addDays completedAt 1"
    using addDays_mono [of 0 1 completedAt] by (simp add: addDays_def)
  moreover have "addDays completedAt 1 \<le> addDays completedAt 7"
    by (rule addDays_mono) simp
  ultimately have v1: "validTime (addDays completedAt 1)"
    by (rule validTime_between [OF vt v7])
  note start = first_midnight [OF vt v1, of tz]
  have later: "completedAt < ?first" by (rule startOfDay_later_day) simp
  have "?first \<le> addDays completedAt 1"
    using startOfDay_bounds [of tz "addDays completedAt 1"] by simp
  then have "addDays ?first 6 \<le> addDays completedAt 7"
    by (simp add: addDays_def)
  moreover have "?first \<le> addDays ?first 6"
    using addDays_mono [of 0 6 ?first] by (simp add: addDays_def)
  ultimately have v6: "validTime (addDays ?first (int 7 - 1))"
    using later vt v7 by (intro validTime_between [OF vt v7]) simp_all
  from h obtain x where x: "x \<in> set days" "0 \<le> x" "x \<le> 6" by (cases days) auto
  from weekday_within_week [OF x(2,3), of tz ?first] x(1)
  have "\<exists>j<7. getDay tz (addDays ?first (int j)) \<in> set days" by auto
  from weeklySearch_finds [OF start(2) v6 this] obtain k where k: "k < 7"
    and res: "weeklySearch tz days (Date ?first) 7 = Date (addDays ?first (int k))"
    and found: "getDay tz (addDays ?first (int k)) \<in> set days"
    and first: "\<forall>j<k. getDay tz (addDays ?first (int j)) \<notin> set days" by blast
  have "?first \<le> addDays ?first (int k)"
    using addDays_mono [of 0 "int k" ?first] by (simp add: addDays_def)
  with later have after: "completedAt < addDays ?first (int k)" by simp
  from calculateNextDue_weekly [OF assms, of days tz "Date completedAt"] h res start(1)
  have "calculateNextDue tz task (Date completedAt) =
      Some (Inr (Date (addDays ?first (int k))))" by simp
  with k found first after
  show "\<exists>k<7. calculateNextDue tz task (Date completedAt) =
               Some (Inr (Date (addDays ?first (int k)))) \<and>
               getDay tz (addDays ?first (int k)) \<in> set days \<and>
               (\<forall>j<k. getDay tz (addDays ?first (int j)) \<notin> set days) \<and>
               completedAt < addDays ?first (int k)" by blast
next
  assume h: "mode p = CALENDAR \<and> rtype p = INTERVAL \<and> interval p = Some i \<and> 1 \<le> i \<and>
      runit p = Some u \<and> validTime completedAt \<and> validTime (anchorOf task p)"
  let ?a = "anchorOf task p"
  let ?step = "i * unitDays u * msPerDay"
  from h have i: "1 \<le> i" and vt: "validTime completedAt" and va: "validTime ?a"
    by simp_all
  from advanceInterval_reaches [OF interval_step_pos [OF i, of u] va vt]
  obtain n where res: "advanceInterval ?step (Date completedAt) (Date ?a) =
      Some (newDate (?a + int n * ?step))"
    and after: "completedAt < ?a + int n * ?step"
    and before: "\<forall>m<n. ?a + int m * ?step \<le> completedAt" by blast
  from h have "i \<noteq> 0" by auto
  from calculateNextDue_interval [OF assms _ _ _ this, of u tz "Date completedAt"] h res va
  have "calculateNextDue tz task (Date completedAt) =
      Some (Inr (newDate (?a + int n * ?step)))" by (simp add: newDate_valid)
  with after before
  show "\<exists>n. calculateNextDue tz task (Date completedAt) =
             Some (Inr (newDate (?a + int n * ?step))) \<and>
             completedAt < ?a + int n * ?step \<and>
             (\<forall>m<n. ?a + int m * ?step \<le> completedAt)" by blast
qed

lemma weeklyTask_pattern: "recurrence_pattern weeklyTask =
      Some ((examplePattern CALENDAR WEEKLY)\<lparr> daysOfWeek := Some [1, 3] \<rparr>)"
  by (simp add: weeklyTask_def)

lemma intervalTask_pattern: "recurrence_pattern intervalTask =
      Some ((examplePattern CALENDAR INTERVAL)\<lparr> interval := Some 2, runit := Some Days \<rparr>)"
  by (simp add: intervalTask_def)

lemma hugeIntervalTask_pattern: "recurrence_pattern hugeIntervalTask =
      Some ((examplePattern CALENDAR INTERVAL)
              \<lparr> interval := Some 100000000, runit := Some Days \<rparr>)"
  by (simp add: hugeIntervalTask_def)

lemma example_times:
  "validTime 86401000" "validTime (addDays 86401000 7)"
  "validTime (86401000 + 31 * msPerDay)"
  by (simp_all add: validTime_def maxTime_def addDays_def msPerDay_def)

theorem C9_next_due_terminates_witness:
  "(\<exists>r. calculateNextDue 0 intervalTask InvalidDate = Some (Inr r)) \<and>
   (\<exists>k<7. calculateNextDue 0 weeklyTask (Date 86401000) =
             Some (Inr (Date (addDays (startOfDay 0 (addDays 86401000 1)) (int k)))) \<and>
          getDay 0 (addDays (startOfDay 0 (addDays 86401000 1)) (int k)) \<in> set [1, 3] \<and>
          86401000 < addDays (startOfDay 0 (addDays 86401000 1)) (int k)) \<and>
   (\<exists>n. calculateNextDue 0 intervalTask (Date 86401000) =
           Some (Inr (newDate (0 + int n * (2 * unitDays Days * msPerDay)))) \<and>
         86401000 < 0 + int n * (2 * unitDays Days * msPerDay))"
proof -
  have anchor: "anchorOf intervalTask
      ((examplePattern CALENDAR INTERVAL)\<lparr> interval := Some 2, runit := Some Days \<rparr>) = 0"
    by (simp add: anchorOf_def examplePattern_def intervalTask_def exampleTask_def)
  have zero: "validTime 0" by (simp add: validTime_def maxTime_def)
  from C9_next_due_terminates [OF weeklyTask_pattern, of 0 InvalidDate "[1, 3]" 86401000]
    example_times
  have a: "(\<exists>k<7. calculateNextDue 0 weeklyTask (Date 86401000) =
             Some (Inr (Date (addDays (startOfDay 0 (addDays 86401000 1)) (int k)))) \<and>
          getDay 0 (addDays (startOfDay 0 (addDays 86401000 1)) (int k)) \<in> set [1, 3] \<and>
          86401000 < addDays (startOfDay 0 (addDays 86401000 1)) (int k))"
    by (simp add: examplePattern_def) blast
  from C9_next_due_terminates [OF intervalTask_pattern, of 0 InvalidDate _ 86401000 2 Days]
    example_times zero
  have b: "(\<exists>r. calculateNextDue 0 intervalTask InvalidDate = Some (Inr r)) \<and>
      (\<exists>n. calculateNextDue 0 intervalTask (Date 86401000) =
           Some (Inr (newDate (0 + int n * (2 * unitDays Days * msPerDay)))) \<and>
         86401000 < 0 + int n * (2 * unitDays Days * msPerDay))"
    unfolding anchor by (simp add: examplePattern_def) blast
  from a b show ?thesis by blast
qed

lemma huge_step: "advanceInterval (100000000 * unitDays Days * msPerDay) (Date 86401000)
    (newDate 1000) = Some InvalidDate"
proof -
  have "newDate 1000 = Date 1000" by (simp add: newDate_def validTime_def maxTime_def)
  moreover have "newDate (1000 + 100000000 * unitDays Days * msPerDay) = InvalidDate"
    by (simp add: newDate_def validTime_def maxTime_def unitDays_def msPerDay_def)
  ultimately show ?thesis
    by (subst advanceInterval.simps) (simp add: advanceInterval_invalid)
qed

lemma hugeIntervalTask_next_due:
  "calculateNextDue 0 hugeIntervalTask (Date 86401000) = Some (Inr InvalidDate)"
proof -
  have "anchorOf hugeIntervalTask ((examplePattern CALENDAR INTERVAL)
      \<lparr> interval := Some 100000000, runit := Some Days \<rparr>) = 1000"
    by (simp add: anchorOf_def examplePattern_def hugeIntervalTask_def exampleTask_def)
  with calculateNextDue_interval [OF hugeIntervalTask_pattern, of 100000000 Days 0
      "Date 86401000"] huge_step
  show ?thesis by (simp add: examplePattern_def)
qed

text \<open>
  C9 as stated does not hold. For the calendar interval pattern of 100000000 days on a
  task created at the instant 1000, completed at the instant 86401000, the first instant
  after the completion among the anchor plus multiples of the interval is
  8640000000001000, beyond the last time value of a date. The loop stops there after one
  step, with an invalid date, and that is what the computation returns: no instant after
  \<open>completedAt\<close>.
\<close>

theorem C9_date_range_counterexample:
  "recurrence_pattern hugeIntervalTask =
     Some ((examplePattern CALENDAR INTERVAL)
             \<lparr> interval := Some 100000000, runit := Some Days \<rparr>) \<and>
   created_at hugeIntervalTask = 1000 \<and>
   validTime 1000 \<and> validTime 86401000 \<and>
   calculateNextDue 0 hugeIntervalTask (Date 86401000) = Some (Inr InvalidDate) \<and>
   1000 + 1 * (100000000 * unitDays Days * msPerDay) = 8640000000001000 \<and>
   \<not> validTime 8640000000001000"
  using hugeIntervalTask_pattern hugeIntervalTask_next_due
  by (simp add: hugeIntervalTask_def exampleTask_def validTime_def maxTime_def unitDays_def
      msPerDay_def)

section \<open>Completion of a task\<close>

lemma calculateNextDue_after:
  assumes p: "recurrence_pattern task = Some p"
    and ival: "\<forall>n. interval p = Some n \<longrightarrow> 1 \<le> n"
    and dow: "\<forall>d. dayOfWeek p = Some d \<longrightarrow> 0 \<le> d \<and> d \<le> 6"
    and vt: "validTime t"
    and vh: "validTime (t + nextDueDays p * msPerDay)"
    and va: "validTime (anchorOf task p)"
  shows "\<exists>nd. calculateNextDue tz task (Date t) = Some (Inr (Date nd)) \<and> t < nd"
proof -
  note within = validTime_within [OF vt vh]
  have days31: "31 \<le> nextDueDays p" by (rule nextDueDays_at_least)
  have plus: "plusMs (Date t) (n * msPerDay) = Date (addDays t n) \<and> t < addDays t n"
    if "1 \<le> n" and "n \<le> nextDueDays p" for n
  proof -
    from that(1) msPerDay_pos have "0 < n * msPerDay" by (simp add: zero_less_mult_iff)
    then have "t < addDays t n" by (simp add: addDays_def)
    moreover from this that(2) have "validTime (addDays t n)"
      by (intro within [of _ n]) simp_all
    ultimately show ?thesis by (simp add: newDate_valid addDays_def)
  qed
  have midnight: "setMidnight tz (setDateBy (Date t) n) = Date (startOfDay tz (addDays t n)) \<and>
      t < startOfDay tz (addDays t n)"
    if "1 \<le> n" and "n \<le> nextDueDays p" for n
  proof -
    from plus [OF that] have v: "validTime (addDays t n)" and "t < addDays t n"
      using within [of "addDays t n" n] that by simp_all
    have later: "t < startOfDay tz (addDays t n)" using that(1) by (rule startOfDay_later_day)
    moreover have "startOfDay tz (addDays t n) \<le> addDays t n"
      using startOfDay_bounds [of tz "addDays t n"] by simp
    ultimately have "validTime (startOfDay tz (addDays t n))"
      using that(2) by (intro within [of _ n]) simp_all
    with v later show ?thesis by (simp add: newDate_valid)
  qed
  show ?thesis
  proof (cases "mode p")
    case COMPLETION
    let ?days = "if rtype p = DAILY then 1
                 else if rtype p = WEEKLY then 7
                 else if rtype p = MONTHLY then 30
                 else if rtype p = INTERVAL then
                   (case intervalAndUnit p of Some (i, u) \<Rightarrow> i * unitDays u | None \<Rightarrow> 7)
                 else 7"
    have "1 \<le> ?days \<and> ?days \<le> nextDueDays p"
    proof (cases "rtype p = INTERVAL")
      case False
      with days31 show ?thesis by simp
    next
      case True
      show ?thesis
      proof (cases "intervalAndUnit p")
        case None
        with True days31 show ?thesis by simp
      next
        case (Some iu)
        obtain i u where iu: "iu = (i, u)" by (cases iu)
        with Some ival have "1 \<le> i" by (simp add: intervalAndUnit_Some)
        with unitDays_pos [of u] have "1 \<le> i * unitDays u"
          using mult_mono [of 1 i 1 "unitDays u"] by simp
        with True Some iu show ?thesis by (simp add: nextDueDays_def)
      qed
    qed
    from plus [of ?days] this calculateNextDue_completion [OF p COMPLETION, of tz "Date t"]
    show ?thesis by auto
  next
    case CALENDAR
    have fallback: "plusMs (Date t) (7 * msPerDay) = Date (addDays t 7) \<and> t < addDays t 7"
      using plus [of 7] days31 by simp
    show ?thesis
    proof (cases p rule: calendar_pattern_cases)
      case daily
      with p CALENDAR have "calculateNextDue tz task (Date t) =
          Some (Inr (setMidnight tz (setDateBy (Date t) 1)))"
        by (simp add: calculateNextDue_def)
      with midnight [of 1] days31 show ?thesis by auto
    next
      case (weekdays days)
      from midnight [of 1] days31
      have start: "setMidnight tz (setDateBy (Date t) 1) = Date (startOfDay tz (addDays t 1))"
        and later: "t < startOfDay tz (addDays t 1)" by simp_all
      let ?first = "startOfDay tz (addDays t 1)"
      have "?first \<le> addDays t 1" using startOfDay_bounds [of tz "addDays t 1"] by simp
      then have le8: "addDays ?first (int 7) \<le> addDays t 8" by (simp add: addDays_def)
      have "?first \<le> addDays ?first (int 7)"
        using addDays_mono [of 0 7 ?first] by (simp add: addDays_def)
      with later have "t \<le> addDays ?first (int 7)" by simp
      with le8 days31 have v7: "validTime (addDays ?first (int 7))"
        by (intro within [of _ 8]) simp_all
      from later have "validTime ?first"
        using \<open>?first \<le> addDays t 1\<close> days31 by (intro within [of _ 1]) simp_all
      from weeklySearch_value [OF this v7, of tz days] obtain k where
        "weeklySearch tz days (Date ?first) 7 = Date (addDays ?first (int k))" by blast
      moreover have "?first \<le> addDays ?first (int k)"
        using addDays_mono [of 0 "int k" ?first] by (simp add: addDays_def)
      moreover from p CALENDAR weekdays have "calculateNextDue tz task (Date t) =
          Some (Inr (weeklySearch tz days (setMidnight tz (setDateBy (Date t) 1)) 7))"
        by (simp add: calculateNextDue_def)
      ultimately show ?thesis using start later by auto
    next
      case (weekday dw)
      let ?until = "dw - getDay tz t"
      let ?until' = "if ?until \<le> 0 then ?until + 7 else ?until"
      from weekday dow getDay_range [of tz t] have "1 \<le> ?until' \<and> ?until' \<le> 7" by auto
      with midnight [of ?until'] days31
      have "setMidnight tz (setDateBy (Date t) ?until') =
          Date (startOfDay tz (addDays t ?until')) \<and> t < startOfDay tz (addDays t ?until')"
        by simp
      with calculateNextDue_weekday(1) [OF p CALENDAR weekday, of tz t] show ?thesis by auto
    next
      case weekly_plain
      with p CALENDAR have "calculateNextDue tz task (Date t) =
          Some (Inr (plusMs (Date t) (7 * msPerDay)))"
        by (simp add: calculateNextDue_def)
      with fallback show ?thesis by auto
    next
      case monthly
      from setNextMonth_days [of tz t] obtain n where n: "28 \<le> n" "n \<le> 31"
        and month: "setNextMonth tz t = addDays t n" by blast
      from n days31 have "1 \<le> n" "n \<le> nextDueDays p" by simp_all
      from plus [OF this] midnight [OF this] month
      have "setMidnight tz (setMonthNext tz (Date t)) = Date (startOfDay tz (addDays t n)) \<and>
          t < startOfDay tz (addDays t n)"
        using within [of "addDays t n" n] \<open>n \<le> nextDueDays p\<close>
        by (simp add: newDate_valid)
      moreover from p CALENDAR monthly have "calculateNextDue tz task (Date t) =
          Some (Inr (setMidnight tz (setMonthNext tz (Date t))))"
        by (simp add: calculateNextDue_def)
      ultimately show ?thesis by auto
    next
      case (interval i u)
      with ival have i: "1 \<le> i" by (simp add: intervalAndUnit_Some)
      let ?a = "anchorOf task p"
      let ?step = "i * unitDays u * msPerDay"
      from advanceInterval_reaches [OF interval_step_pos [OF i, of u] va vt]
      obtain n where res: "advanceInterval ?step (Date t) (Date ?a) =
          Some (newDate (?a + int n * ?step))"
        and after: "t < ?a + int n * ?step"
        and before: "\<forall>m<n. ?a + int m * ?step \<le> t" by blast
      have "validTime (?a + int n * ?step)"
      proof (cases n)
        case 0
        with va show ?thesis by simp
      next
        case (Suc m)
        with before have "?a + int m * ?step \<le> t" by simp
        then have "?a + int n * ?step \<le> addDays t (i * unitDays u)"
          using Suc by (simp add: addDays_def algebra_simps)
        moreover from interval have "i * unitDays u \<le> nextDueDays p"
          by (simp add: nextDueDays_def)
        ultimately show ?thesis using after by (intro within [of _ "i * unitDays u"]) simp_all
      qed
      with res have "advanceInterval ?step (Date t) (Date ?a) = Some (Date (?a + int n * ?step))"
        by (simp add: newDate_valid)
      moreover from p CALENDAR interval have "calculateNextDue tz task (Date t) =
          map_option Inr (advanceInterval ?step (Date t) (newDate ?a))"
        by (simp add: calculateNextDue_def Let_def)
      ultimately show ?thesis using after va by (auto simp: newDate_valid)
    next
      case interval_plain
      with p CALENDAR have "calculateNextDue tz task (Date t) =
          Some (Inr (plusMs (Date t) (7 * msPerDay)))"
        by (simp add: calculateNextDue_def)
      with fallback show ?thesis by auto
    next
      case other
      with p CALENDAR have "calculateNextDue tz task (Date t) =
          Some (Inr (plusMs (Date t) (7 * msPerDay)))"
        by (simp add: calculateNextDue_def)
      with fallback show ?thesis by auto
    qed
  qed
qed

lemma newDate_later:
  assumes "t < x"
  shows "newDate x = InvalidDate \<or> (\<exists>nd. newDate x = Date nd \<and> t < nd)"
  using assms by (simp add: newDate_def)

lemma later_midnight:
  assumes "1 \<le> n"
  shows "setMidnight tz (newDate (addDays t n)) = InvalidDate \<or>
         (\<exists>nd. setMidnight tz (newDate (addDays t n)) = Date nd \<and> t < nd)"
proof (cases "validTime (addDays t n)")
  case False
  then show ?thesis by (simp add: newDate_invalid)
next
  case True
  with newDate_later [OF startOfDay_later_day [OF assms, of t tz]] show ?thesis
    by (simp add: newDate_valid)
qed

lemma weeklySearch_later:
  assumes "r = InvalidDate \<or> (\<exists>nd. r = Date nd \<and> t < nd)"
  shows "weeklySearch tz days r n = InvalidDate \<or>
         (\<exists>nd. weeklySearch tz days r n = Date nd \<and> t < nd)"
  using assms
proof (induction n arbitrary: r)
  case 0
  then show ?case by simp
next
  case (Suc n)
  show ?case
  proof (cases r)
    case InvalidDate
    with Suc.IH [of InvalidDate] show ?thesis by simp
  next
    case (Date x)
    with Suc.prems have x: "t < x" by simp
    have "x \<le> addDays x 1" using addDays_mono [of 0 1 x] by (simp add: addDays_def)
    with x have "t < addDays x 1" by simp
    from Suc.IH [OF newDate_later [OF this]] Date x show ?thesis by simp
  qed
qed

lemma calculateNextDue_later_or_invalid:
  assumes p: "recurrence_pattern task = Some p"
    and ival: "\<forall>n. interval p = Some n \<longrightarrow> 1 \<le> n"
    and dow: "\<forall>d. dayOfWeek p = Some d \<longrightarrow> 0 \<le> d \<and> d \<le> 6"
    and vt: "validTime t"
    and va: "validTime (anchorOf task p)"
  shows "calculateNextDue tz task (Date t) = Some (Inr InvalidDate) \<or>
         (\<exists>nd. calculateNextDue tz task (Date t) = Some (Inr (Date nd)) \<and> t < nd)"
proof -
  have plus: "plusMs (Date t) (n * msPerDay) = InvalidDate \<or>
      (\<exists>nd. plusMs (Date t) (n * msPerDay) = Date nd \<and> t < nd)" if "1 \<le> n" for n
  proof -
    from that msPerDay_pos have "0 < n * msPerDay" by (simp add: zero_less_mult_iff)
    then have "t < t + n * msPerDay" by simp
    from newDate_later [OF this] show ?thesis by simp
  qed
  show ?thesis
  proof (cases "mode p")
    case COMPLETION
    let ?days = "if rtype p = DAILY then 1
                 else if rtype p = WEEKLY then 7
                 else if rtype p = MONTHLY then 30
                 else if rtype p = INTERVAL then
                   (case intervalAndUnit p of Some (i, u) \<Rightarrow> i * unitDays u | None \<Rightarrow> 7)
                 else 7"
    have "1 \<le> ?days"
    proof (cases "intervalAndUnit p")
      case None
      then show ?thesis by simp
    next
      case (Some iu)
      obtain i u where iu: "iu = (i, u)" by (cases iu)
      with Some ival have "1 \<le> i" by (simp add: intervalAndUnit_Some)
      with unitDays_pos [of u] have "1 \<le> i * unitDays u"
        using mult_mono [of 1 i 1 "unitDays u"] by simp
      with Some iu show ?thesis by simp
    qed
    from plus [OF this] calculateNextDue_completion [OF p COMPLETION, of tz "Date t"]
    show ?thesis by auto
  next
    case CALENDAR
    note fallback = plus [of 7]
    show ?thesis
    proof (cases p rule: calendar_pattern_cases)
      case daily
      with p CALENDAR have "calculateNextDue tz task (Date t) =
          Some (Inr (setMidnight tz (newDate (addDays t 1))))"
        by (simp add: calculateNextDue_def)
      with later_midnight [of 1 tz t] show ?thesis by auto
    next
      case (weekdays days)
      with p CALENDAR have "calculateNextDue tz task (Date t) =
          Some (Inr (weeklySearch tz days (setMidnight tz (newDate (addDays t 1))) 7))"
        by (simp add: calculateNextDue_def)
      with weeklySearch_later [OF later_midnight [of 1 tz t], of tz days 7]
      show ?thesis by auto
    next
      case (weekday dw)
      let ?until = "dw - getDay tz t"
      let ?until' = "if ?until \<le> 0 then ?until + 7 else ?until"
      from weekday dow getDay_range [of tz t] have "1 \<le> ?until'" by auto
      from later_midnight [OF this, of tz t]
        calculateNextDue_weekday(1) [OF p CALENDAR weekday, of tz t]
      show ?thesis by auto
    next
      case weekly_plain
      with p CALENDAR have "calculateNextDue tz task (Date t) =
          Some (Inr (plusMs (Date t) (7 * msPerDay)))"
        by (simp add: calculateNextDue_def)
      with fallback show ?thesis by auto
    next
      case monthly
      from setNextMonth_days [of tz t] obtain n where n: "28 \<le> n"
        and month: "setNextMonth tz t = addDays t n" by blast
      from n have "1 \<le> n" by simp
      from later_midnight [OF this, of tz t] month
      have "setMidnight tz (setMonthNext tz (Date t)) = InvalidDate \<or>
          (\<exists>nd. setMidnight tz (setMonthNext tz (Date t)) = Date nd \<and> t < nd)"
        by simp
      moreover from p CALENDAR monthly have "calculateNextDue tz task (Date t) =
          Some (Inr (setMidnight tz (setMonthNext tz (Date t))))"
        by (simp add: calculateNextDue_def)
      ultimately show ?thesis by auto
    next
      case (interval i u)
      with ival have i: "1 \<le> i" by (simp add: intervalAndUnit_Some)
      let ?a = "anchorOf task p"
      let ?step = "i * unitDays u * msPerDay"
      from advanceInterval_reaches [OF interval_step_pos [OF i, of u] va vt]
      obtain n where res: "advanceInterval ?step (Date t) (Date ?a) =
          Some (newDate (?a + int n * ?step))"
        and after: "t < ?a + int n * ?step" by blast
      from p CALENDAR interval va have "calculateNextDue tz task (Date t) =
          map_option Inr (advanceInterval ?step (Date t) (Date ?a))"
        by (simp add: calculateNextDue_def Let_def newDate_valid)
      with res newDate_later [OF after] show ?thesis by auto
    next
      case interval_plain
      with p CALENDAR have "calculateNextDue tz task (Date t) =
          Some (Inr (plusMs (Date t) (7 * msPerDay)))"
        by (simp add: calculateNextDue_def)
      with fallback show ?thesis by auto
    next
      case other
      with p CALENDAR have "calculateNextDue tz task (Date t) =
          Some (Inr (plusMs (Date t) (7 * msPerDay)))"
        by (simp add: calculateNextDue_def)
      with fallback show ?thesis by auto
    qed
  qed
qed

lemma find_map_same_id:
  assumes "\<And>t. task_id (f t) = task_id t"
  shows "find (\<lambda>t. task_id t = i) (map (\<lambda>t. if task_id t = i then f t else t) xs) =
         map_option f (find (\<lambda>t. task_id t = i) xs)"
  using assms by (induction xs) auto

lemma getTask_setTaskLastCompleted:
  "getTask (setTaskLastCompleted clk db i x) i =
     map_option (\<lambda>t. t\<lparr> last_completed_at := Some x, updated_at := clk \<rparr>) (getTask db i)"
  by (simp add: getTask_def setTaskLastCompleted_def find_map_same_id)

lemma getTask_setTaskNextDue:
  "getTask (setTaskNextDue clk db i x) i =
     map_option (\<lambda>t. t\<lparr> next_due_at := Some x, updated_at := clk \<rparr>) (getTask db i)"
  by (simp add: getTask_def setTaskNextDue_def find_map_same_id)

lemma getTask_insertCompletion: "getTask (insertCompletion db c) i = getTask db i"
  by (simp add: getTask_def insertCompletion_def)

lemma statusUpdate_not_empty: "noUpdates\<lparr> u_status := Some s \<rparr> \<noteq> noUpdates"
proof
  assume "noUpdates\<lparr> u_status := Some s \<rparr> = noUpdates"
  then have "u_status (noUpdates\<lparr> u_status := Some s \<rparr>) = u_status noUpdates" by simp
  then show False by (simp add: noUpdates_def)
qed

lemma applyUpdates_status:
  "applyUpdates clk (noUpdates\<lparr> u_status := Some s \<rparr>) t = t\<lparr> status := s, updated_at := clk \<rparr>"
  by (simp add: applyUpdates_def noUpdates_def)

lemma getTask_updateTask_status:
  "getTask (updateTask clk db i (noUpdates\<lparr> u_status := Some s \<rparr>)) i =
     map_option (\<lambda>t. t\<lparr> status := s, updated_at := clk \<rparr>) (getTask db i)"
proof -
  have "task_id (applyUpdates clk (noUpdates\<lparr> u_status := Some s \<rparr>) t) = task_id t" for t
    by (simp add: applyUpdates_status)
  then show ?thesis
    by (simp add: getTask_def updateTask_def statusUpdate_not_empty find_map_same_id
        applyUpdates_status)
qed

lemma complete_recurring:
  assumes task: "getTask db i = Some task" and vt: "validTime t"
    and due: "calculateNextDue tz task (Date t) = Some (Inr (Date nd))"
    and rec: "recurrence_pattern task \<noteq> None"
  shows "\<exists>db'. complete clk tz db i (Some t) = Some (None, db') \<and>
           getTask db' i =
             Some (task\<lparr> last_completed_at := Some t, next_due_at := Some nd,
                         status := OPEN, updated_at := clk \<rparr>)"
  using assms
  by (simp add: complete_def Let_def newDate_valid getTask_updateTask_status
      getTask_setTaskNextDue getTask_setTaskLastCompleted getTask_insertCompletion)

lemma complete_invalid_next_due:
  assumes task: "getTask db i = Some task" and vt: "validTime t"
    and due: "calculateNextDue tz task (Date t) = Some (Inr InvalidDate)"
    and rec: "recurrence_pattern task \<noteq> None"
  shows "\<exists>db'. complete clk tz db i (Some t) = Some (Some InvalidTimeValue, db') \<and>
           getTask db' i = Some (task\<lparr> last_completed_at := Some t, updated_at := clk \<rparr>)"
  using assms
  by (simp add: complete_def Let_def newDate_valid getTask_setTaskLastCompleted
      getTask_insertCompletion)

lemma complete_one_time:
  assumes task: "getTask db i = Some task" and vt: "validTime t"
    and rec: "recurrence_pattern task = None"
  shows "\<exists>db'. complete clk tz db i (Some t) = Some (None, db') \<and>
           getTask db' i =
             Some (task\<lparr> last_completed_at := Some t, status := COMPLETED, updated_at := clk \<rparr>)"
  using assms
  by (simp add: complete_def Let_def newDate_valid getTask_updateTask_status
      getTask_setTaskLastCompleted getTask_insertCompletion)

text \<open>
  C1, as amended. Let the completion instant be a valid date. For an existing task with a
  recurrence pattern whose interval, when present, is at least 1 and whose single weekday,
  when present, is in 0..6, with a valid anchor (the creation time without one),
  \<open>complete\<close> either returns and leaves the task open, with \<open>last_completed_at\<close> the
  completion instant and \<open>next_due_at\<close> after it, or the next due date it computes is
  invalid and it throws the range error, leaving \<open>last_completed_at\<close> the completion
  instant, \<open>next_due_at\<close> and the status as they were. It returns when the completion
  instant lies 31 days, or the length of the interval when that is more, before the end of
  the range of dates or earlier. For an existing task without a recurrence pattern it
  returns and leaves the task completed, with \<open>last_completed_at\<close> the completion instant.
\<close>

theorem C1_complete_sets_status_and_next_due:
  assumes "getTask db i = Some task" and "validTime completedAt"
  shows
    "(\<forall>p. recurrence_pattern task = Some p \<and> (\<forall>n. interval p = Some n \<longrightarrow> 1 \<le> n) \<and>
          (\<forall>d. dayOfWeek p = Some d \<longrightarrow> 0 \<le> d \<and> d \<le> 6) \<and>
          validTime (anchorOf task p) \<longrightarrow>
        ((\<exists>db' task' nd. complete clk tz db i (Some completedAt) = Some (None, db') \<and>
            getTask db' i = Some task' \<and> status task' = OPEN \<and>
            last_completed_at task' = Some completedAt \<and>
            next_due_at task' = Some nd \<and> completedAt < nd) \<or>
         (calculateNextDue tz task (Date completedAt) = Some (Inr InvalidDate) \<and>
          (\<exists>db' task'. complete clk tz db i (Some completedAt) =
               Some (Some InvalidTimeValue, db') \<and>
             getTask db' i = Some task' \<and> last_completed_at task' = Some completedAt \<and>
             next_due_at task' = next_due_at task \<and> status task' = status task))) \<and>
        (validTime (completedAt + nextDueDays p * msPerDay) \<longrightarrow>
           (\<exists>db' task' nd. complete clk tz db i (Some completedAt) = Some (None, db') \<and>
              getTask db' i = Some task' \<and> status task' = OPEN \<and>
              last_completed_at task' = Some completedAt \<and>
              next_due_at task' = Some nd \<and> completedAt < nd))) \<and>
     (recurrence_pattern task = None \<longrightarrow>
        (\<exists>db' task'. complete clk tz db i (Some completedAt) = Some (None, db') \<and>
           getTask db' i = Some task' \<and> status task' = COMPLETED \<and>
           last_completed_at task' = Some completedAt))"
proof (intro conjI allI impI)
  fix p
  assume h: "recurrence_pattern task = Some p \<and> (\<forall>n. interval p = Some n \<longrightarrow> 1 \<le> n) \<and>
      (\<forall>d. dayOfWeek p = Some d \<longrightarrow> 0 \<le> d \<and> d \<le> 6) \<and>
      validTime (anchorOf task p)"
  then have rec: "recurrence_pattern task \<noteq> None" by simp
  have returns: "\<exists>db' task' nd. complete clk tz db i (Some completedAt) = Some (None, db') \<and>
      getTask db' i = Some task' \<and> status task' = OPEN \<and>
      last_completed_at task' = Some completedAt \<and>
      next_due_at task' = Some nd \<and> completedAt < nd"
    if nd: "calculateNextDue tz task (Date completedAt) = Some (Inr (Date nd))"
      and later: "completedAt < nd" for nd
  proof -
    from complete_recurring [OF assms nd rec, of clk] obtain db' where
      "complete clk tz db i (Some completedAt) = Some (None, db')"
      "getTask db' i = Some (task\<lparr> last_completed_at := Some completedAt,
          next_due_at := Some nd, status := OPEN, updated_at := clk \<rparr>)"
      by blast
    with later show ?thesis
      by (intro exI [of _ db'] exI [of _ "task\<lparr> last_completed_at := Some completedAt,
          next_due_at := Some nd, status := OPEN, updated_at := clk \<rparr>"] exI [of _ nd]) simp
  qed
  from h assms(2) calculateNextDue_later_or_invalid [of task p completedAt tz]
  consider (invalid) "calculateNextDue tz task (Date completedAt) = Some (Inr InvalidDate)"
    | (valid) nd where "calculateNextDue tz task (Date completedAt) = Some (Inr (Date nd))"
        "completedAt < nd"
    by blast
  then show "(\<exists>db' task' nd. complete clk tz db i (Some completedAt) = Some (None, db') \<and>
        getTask db' i = Some task' \<and> status task' = OPEN \<and>
        last_completed_at task' = Some completedAt \<and>
        next_due_at task' = Some nd \<and> completedAt < nd) \<or>
      (calculateNextDue tz task (Date completedAt) = Some (Inr InvalidDate) \<and>
       (\<exists>db' task'. complete clk tz db i (Some completedAt) =
            Some (Some InvalidTimeValue, db') \<and>
          getTask db' i = Some task' \<and> last_completed_at task' = Some completedAt \<and>
          next_due_at task' = next_due_at task \<and> status task' = status task))"
  proof cases
    case invalid
    from complete_invalid_next_due [OF assms invalid rec, of clk] obtain db' where
      "complete clk tz db i (Some completedAt) = Some (Some InvalidTimeValue, db')"
      "getTask db' i = Some (task\<lparr> last_completed_at := Some completedAt,
          updated_at := clk \<rparr>)"
      by blast
    then have "\<exists>db' task'. complete clk tz db i (Some completedAt) =
          Some (Some InvalidTimeValue, db') \<and>
        getTask db' i = Some task' \<and> last_completed_at task' = Some completedAt \<and>
        next_due_at task' = next_due_at task \<and> status task' = status task"
      by (intro exI [of _ db'] exI [of _ "task\<lparr> last_completed_at := Some completedAt,
          updated_at := clk \<rparr>"]) simp
    with invalid show ?thesis by blast
  next
    case (valid nd)
    from returns [OF this] show ?thesis by blast
  qed
  assume "validTime (completedAt + nextDueDays p * msPerDay)"
  with h assms(2) calculateNextDue_after [of task p completedAt tz]
  obtain nd where "calculateNextDue tz task (Date completedAt) = Some (Inr (Date nd))"
    and "completedAt < nd" by blast
  from returns [OF this]
  show "\<exists>db' task' nd. complete clk tz db i (Some completedAt) = Some (None, db') \<and>
      getTask db' i = Some task' \<and> status task' = OPEN \<and>
      last_completed_at task' = Some completedAt \<and>
      next_due_at task' = Some nd \<and> completedAt < nd" .
next
  assume "recurrence_pattern task = None"
  from complete_one_time [OF assms this, of clk tz] obtain db' where
    "complete clk tz db i (Some completedAt) = Some (None, db')"
    "getTask db' i = Some (task\<lparr> last_completed_at := Some completedAt,
        status := COMPLETED, updated_at := clk \<rparr>)"
    by blast
  then show "\<exists>db' task'. complete clk tz db i (Some completedAt) = Some (None, db') \<and>
      getTask db' i = Some task' \<and> status task' = COMPLETED \<and>
      last_completed_at task' = Some completedAt"
    by (intro exI [of _ db'] exI [of _ "task\<lparr> last_completed_at := Some completedAt,
        status := COMPLETED, updated_at := clk \<rparr>"]) simp
qed

lemma recurringDb_getTask:
  "getTask recurringDb 1 = Some weeklyTask"
  "getTask recurringDb 2 = Some (exampleTask 2 (linearConfig 0 10))"
  "getTask recurringDb 3 = Some intervalTask"
  "getTask recurringDb 4 = Some hugeIntervalTask"
  "getTask recurringDb 5 = Some wednesdayTask"
  by (simp_all add: getTask_def recurringDb_def exampleTask_def weeklyTask_def
      intervalTask_def hugeIntervalTask_def wednesdayTask_def)

lemma wednesdayTask_pattern: "recurrence_pattern wednesdayTask =
      Some ((examplePattern CALENDAR WEEKLY)
              \<lparr> interval := Some 1, runit := Some Weeks, dayOfWeek := Some 3 \<rparr>)"
  by (simp add: wednesdayTask_def)

theorem C1_complete_sets_status_and_next_due_witness:
  "(\<exists>db' task' nd. complete 0 0 recurringDb 5 (Some 86401000) = Some (None, db') \<and>
      getTask db' 5 = Some task' \<and> status task' = OPEN \<and>
      last_completed_at task' = Some 86401000 \<and>
      next_due_at task' = Some nd \<and> 86401000 < nd) \<and>
   (\<exists>db' task'. complete 0 0 recurringDb 2 (Some 86401000) = Some (None, db') \<and>
      getTask db' 2 = Some task' \<and> status task' = COMPLETED \<and>
      last_completed_at task' = Some 86401000)"
proof -
  let ?p = "(examplePattern CALENDAR WEEKLY)
      \<lparr> interval := Some 1, runit := Some Weeks, dayOfWeek := Some 3 \<rparr>"
  have ok: "(\<forall>n. interval ?p = Some n \<longrightarrow> 1 \<le> n) \<and>
      (\<forall>d. dayOfWeek ?p = Some d \<longrightarrow> 0 \<le> d \<and> d \<le> 6)"
    by (simp add: examplePattern_def)
  have anchor: "validTime (anchorOf wednesdayTask ?p)"
    by (simp add: anchorOf_def examplePattern_def wednesdayTask_def exampleTask_def
        validTime_def maxTime_def)
  have days: "nextDueDays ?p = 31"
    by (simp add: nextDueDays_def examplePattern_def)
  have none: "recurrence_pattern (exampleTask 2 (linearConfig 0 10)) = None"
    by (simp add: exampleTask_def)
  from C1_complete_sets_status_and_next_due
         [OF recurringDb_getTask(5) example_times(1), of 0 0]
    wednesdayTask_pattern ok anchor days example_times(3)
  have a: "\<exists>db' task' nd. complete 0 0 recurringDb 5 (Some 86401000) = Some (None, db') \<and>
      getTask db' 5 = Some task' \<and> status task' = OPEN \<and>
      last_completed_at task' = Some 86401000 \<and>
      next_due_at task' = Some nd \<and> 86401000 < nd" by simp
  from C1_complete_sets_status_and_next_due
         [OF recurringDb_getTask(2) example_times(1), of 0 0] none
  have b: "\<exists>db' task'. complete 0 0 recurringDb 2 (Some 86401000) = Some (None, db') \<and>
      getTask db' 2 = Some task' \<and> status task' = COMPLETED \<and>
      last_completed_at task' = Some 86401000" by blast
  from a b show ?thesis by blast
qed

text \<open>
  C1 as stated does not hold. The task 4 of \<open>recurringDb\<close> has a calendar interval pattern
  of 100000000 days, an interval that is at least 1, and was created at the instant 1000.
  Completed at the instant 86401000, its next due date is invalid, because the first
  multiple of the interval after the completion is beyond the last time value of a date.
  \<open>complete\<close> then throws the range error of \<open>toISOString\<close>, after it has written
  \<open>last_completed_at\<close>: the task is left without \<open>next_due_at\<close>.
\<close>

theorem C1_date_range_counterexample:
  "getTask recurringDb 4 = Some hugeIntervalTask \<and>
   recurrence_pattern hugeIntervalTask =
     Some ((examplePattern CALENDAR INTERVAL)
             \<lparr> interval := Some 100000000, runit := Some Days \<rparr>) \<and>
   validTime 86401000 \<and>
   (\<exists>db' task'. complete 0 0 recurringDb 4 (Some 86401000) =
        Some (Some InvalidTimeValue, db') \<and>
      getTask db' 4 = Some task' \<and> last_completed_at task' = Some 86401000 \<and>
      next_due_at task' = None)"
proof -
  have rec: "recurrence_pattern hugeIntervalTask \<noteq> None"
    by (simp add: hugeIntervalTask_def)
  from complete_invalid_next_due
         [OF recurringDb_getTask(4) example_times(1) hugeIntervalTask_next_due rec, of 0]
  obtain db' where "complete 0 0 recurringDb 4 (Some 86401000) =
      Some (Some InvalidTimeValue, db')"
    and "getTask db' 4 =
      Some (hugeIntervalTask\<lparr> last_completed_at := Some 86401000, updated_at := 0 \<rparr>)"
    by blast
  then have "\<exists>db' task'. complete 0 0 recurringDb 4 (Some 86401000) =
        Some (Some InvalidTimeValue, db') \<and>
      getTask db' 4 = Some task' \<and> last_completed_at task' = Some 86401000 \<and>
      next_due_at task' = None"
    by (intro exI [of _ db'] exI [of _ "hugeIntervalTask\<lparr> last_completed_at := Some 86401000,
        updated_at := 0 \<rparr>"]) (simp add: hugeIntervalTask_def exampleTask_def)
  with recurringDb_getTask(4) hugeIntervalTask_pattern example_times(1)
  show ?thesis by blast
qed

section \<open>The daily plan and priorities of zero\<close>

lemma js_eq_zero: "js_eq a (Fin 0) \<longleftrightarrow> a = Fin 0"
  by (auto simp: js_eq_def)

lemma set_getByPriority:
  "set (getByPriority clk tz db limit (Some t)) \<subseteq> set (prioritized clk tz db t)"
proof -
  have "set (take n (js_sort byPriorityDesc (prioritized clk tz db t))) \<subseteq>
      set (prioritized clk tz db t)" for n
    using set_take_subset [of n "js_sort byPriorityDesc (prioritized clk tz db t)"]
    by (simp add: set_js_sort)
  then show ?thesis
    by (auto simp: getByPriority_def prioritized_def [symmetric] Let_def set_js_sort
        split: option.splits)
qed

lemma set_filterActionable:
  "set (filterActionable tz tasks date) \<subseteq> {t \<in> set tasks. priority t \<noteq> Fin 0}"
  by (auto simp: filterActionable_def js_eq_zero)

lemma scheduleLoop_tasks:
  assumes "scheduleLoop config limit tasks (used, sched, unsched) = (used', sched', unsched')"
  shows "s_task ` set sched' \<subseteq> s_task ` set sched \<union> set tasks \<and>
         un_task ` set unsched' \<subseteq> un_task ` set unsched \<union> set tasks"
  using assms
proof (induction tasks arbitrary: used sched unsched)
  case Nil
  then show ?case by simp
next
  case (Cons task rest)
  show ?case
  proof (cases "limit \<le> length sched")
    case True
    with Cons.prems show ?thesis by auto
  next
    case False
    let ?allowed = "case (window_start task, window_end task) of
                      (Some ws, Some we) \<Rightarrow>
                        rangeIntersection (parseTime (workHoursStart config))
                          (parseTime (workHoursEnd config)) (parseTime ws) (parseTime we)
                    | _ \<Rightarrow> Some (parseTime (workHoursStart config),
                                 parseTime (workHoursEnd config))"
    show ?thesis
    proof (cases ?allowed)
      case None
      with False Cons.prems have "scheduleLoop config limit rest
          (used, sched, unsched @ [\<lparr> un_task = task, reason = ''window outside work hours'' \<rparr>]) =
          (used', sched', unsched')"
        by (simp add: Let_def)
      from Cons.IH [OF this] show ?thesis by auto
    next
      case (Some range)
      obtain a b where range: "range = (a, b)" by (cases range)
      show ?thesis
      proof (cases "findAvailableSlot used a b (int (taskEstimate config task))")
        case None
        with False Some range Cons.prems have "scheduleLoop config limit rest
            (used, sched, unsched @ [\<lparr> un_task = task, reason = ''does not fit'' \<rparr>]) =
            (used', sched', unsched')"
          by (simp add: Let_def)
        from Cons.IH [OF this] show ?thesis by auto
      next
        case found: (Some slot)
        with False Some range Cons.prems have "scheduleLoop config limit rest
            (js_sort byStart (used @ [slot]),
             sched @ [\<lparr> s_task = task,
                        s_slot = \<lparr> slot_start = formatTime (fst slot),
                                   slot_end = formatTime (snd slot) \<rparr>,
                        estimateMinutes = taskEstimate config task,
                        isDefaultEstimate = taskIsDefaultEstimate task \<rparr>],
             unsched) = (used', sched', unsched')"
          by (simp add: Let_def)
        from Cons.IH [OF this] show ?thesis by auto
      qed
    qed
  qed
qed

lemma planDay_tasks:
  "s_task ` set (scheduled (planDay clk tz config db date optLimit optBlocks)) \<union>
   un_task ` set (unscheduled (planDay clk tz config db date optLimit optBlocks))
   \<subseteq> {t \<in> set (prioritized clk tz db (priorityTime tz config date)). priority t \<noteq> Fin 0}"
proof -
  let ?limit = "case optLimit of Some n \<Rightarrow> n | None \<Rightarrow> 8"
  let ?tasks = "getByPriority clk tz db (Some (?limit * 2)) (Some (priorityTime tz config date))"
  let ?act = "filterActionable tz ?tasks date"
  let ?good = "{t \<in> set (prioritized clk tz db (priorityTime tz config date)). priority t \<noteq> Fin 0}"
  have act: "set ?act \<subseteq> ?good"
    using set_filterActionable [of tz ?tasks date]
      set_getByPriority [of clk tz db "Some (?limit * 2)" "priorityTime tz config date"]
    by blast
  show ?thesis
  proof (cases "case optBlocks of Some b \<Rightarrow> b | None \<Rightarrow> True")
    case False
    have "set (take ?limit ?act) \<subseteq> set ?act" by (rule set_take_subset)
    with act False show ?thesis
      by (auto simp: planDay_def Let_def image_iff)
  next
    case True
    obtain used' sched' unsched' where
      loop: "scheduleLoop config ?limit ?act ([], [], []) = (used', sched', unsched')"
      by (cases "scheduleLoop config ?limit ?act ([], [], [])") auto
    from scheduleLoop_tasks [OF loop] act
    have "s_task ` set sched' \<union> un_task ` set unsched' \<subseteq> ?good" by auto
    with True loop show ?thesis
      by (simp add: planDay_def Let_def)
  qed
qed

lemma prioritized_entry:
  assumes "e \<in> set (prioritized clk tz db t)"
  shows "\<exists>task \<in> set (getTasks db (Some [OPEN, IN_PROGRESS])).
           e = withPriority task (calculateTaskPriority clk tz db task t)"
  using assms by (auto simp: prioritized_def)

lemma withPriority_fields:
  "priority (withPriority task p) = p" "Task.truncate (withPriority task p) = task"
  by (simp_all add: withPriority_def Task.defs TaskWithPriority.defs)

text \<open>
  C8. \<open>planDay\<close> evaluates the priorities at the instant of the plan date with the hour
  \<open>max(workStartHour, 9)\<close> and the minute of the start of work. Every entry of the scheduled
  and of the unscheduled list is an open or in-progress task of the store with its priority
  at that instant, which is not 0; so a task whose priority at that instant is 0 is in
  neither list.
\<close>

theorem C8_zero_priority_tasks_excluded:
  "priorityTime tz config date =
     startOfDay tz date + max (int (fst (workHoursStart config))) 9 * 3600000 +
       int (snd (workHoursStart config)) * 60000 \<and>
   (\<forall>e \<in> s_task ` set (scheduled (planDay clk tz config db date optLimit optBlocks)) \<union>
          un_task ` set (unscheduled (planDay clk tz config db date optLimit optBlocks)).
      priority e \<noteq> Fin 0 \<and>
      priority e =
        calculateTaskPriority clk tz db (Task.truncate e) (priorityTime tz config date) \<and>
      Task.truncate e \<in> set (getTasks db (Some [OPEN, IN_PROGRESS]))) \<and>
   (\<forall>task. calculateTaskPriority clk tz db task (priorityTime tz config date) = Fin 0 \<longrightarrow>
      task \<notin> Task.truncate ` s_task `
                set (scheduled (planDay clk tz config db date optLimit optBlocks)) \<and>
      task \<notin> Task.truncate ` un_task `
                set (unscheduled (planDay clk tz config db date optLimit optBlocks)))"
proof -
  let ?plan = "planDay clk tz config db date optLimit optBlocks"
  let ?pt = "priorityTime tz config date"
  have time: "?pt = startOfDay tz date + max (int (fst (workHoursStart config))) 9 * 3600000 +
       int (snd (workHoursStart config)) * 60000"
    by (cases "workHoursStart config") (simp add: priorityTime_def setHoursMinutes_def Let_def)
  have entries: "priority e \<noteq> Fin 0 \<and>
      priority e = calculateTaskPriority clk tz db (Task.truncate e) ?pt \<and>
      Task.truncate e \<in> set (getTasks db (Some [OPEN, IN_PROGRESS]))"
    if "e \<in> s_task ` set (scheduled ?plan) \<union> un_task ` set (unscheduled ?plan)" for e
  proof -
    from that planDay_tasks [of clk tz config db date optLimit optBlocks]
    have e: "e \<in> set (prioritized clk tz db ?pt)" and nz: "priority e \<noteq> Fin 0" by auto
    from prioritized_entry [OF e] obtain task where
      "task \<in> set (getTasks db (Some [OPEN, IN_PROGRESS]))"
      "e = withPriority task (calculateTaskPriority clk tz db task ?pt)" by blast
    with nz show ?thesis by (simp add: withPriority_fields)
  qed
  have excluded: "task \<notin> Task.truncate ` s_task ` set (scheduled ?plan) \<and>
      task \<notin> Task.truncate ` un_task ` set (unscheduled ?plan)"
    if zero: "calculateTaskPriority clk tz db task ?pt = Fin 0" for task
  proof -
    have "Task.truncate e \<noteq> task"
      if "e \<in> s_task ` set (scheduled ?plan) \<union> un_task ` set (unscheduled ?plan)" for e
      using entries [OF that] zero by auto
    then show ?thesis by blast
  qed
  from time entries excluded show ?thesis by blast
qed

lemma chainDb_task1: "getTask chainDb 1 = Some (exampleTask 1 (linearConfig 0 20))"
  by (simp add: getTask_def chainDb_def exampleTask_def)

lemma chainDb_blocked_priority:
  "calculateTaskPriority clk tz chainDb
     ((exampleTask 2 (linearConfig 0 10))\<lparr> dependencies := [1] \<rparr>) t = Fin 0"
proof -
  have "\<not> allDependenciesComplete chainDb [1]"
    by (simp add: chainDb_task1 exampleTask_def del: One_nat_def)
  then show ?thesis by (simp add: calculateTaskPriority_def del: One_nat_def)
qed

theorem C8_zero_priority_tasks_excluded_witness:
  "calculateTaskPriority 0 0 chainDb
     ((exampleTask 2 (linearConfig 0 10))\<lparr> dependencies := [1] \<rparr>)
     (priorityTime 0 DEFAULT_CONFIG 0) = Fin 0 \<and>
   (exampleTask 2 (linearConfig 0 10))\<lparr> dependencies := [1] \<rparr> \<notin>
     Task.truncate ` s_task ` set (scheduled (planDay 0 0 DEFAULT_CONFIG chainDb 0 None None)) \<and>
   (exampleTask 2 (linearConfig 0 10))\<lparr> dependencies := [1] \<rparr> \<notin>
     Task.truncate ` un_task ` set (unscheduled (planDay 0 0 DEFAULT_CONFIG chainDb 0 None None))"
  using C8_zero_priority_tasks_excluded [of 0 DEFAULT_CONFIG 0 0 chainDb None None]
    chainDb_blocked_priority [of 0 0 "priorityTime 0 DEFAULT_CONFIG 0"]
  by blast

section \<open>The daily plan: time blocks\<close>

lemma estimateTask_priority:
  assumes "0 < dl" and "dl < t"
  shows "calculateTaskPriority clk tz db (estimateTask i dl est) t =
           Fin (1 + real_of_int (t - dl) / real_of_int dl)"
  using assms
  by (simp add: calculateTaskPriority_def estimateTask_def exampleTask_def linearConfig_def
      exampleConfig_def new_LinearCurve_def sum_map_right_def js_div_def)

lemma overlap_priorityTime: "priorityTime 0 DEFAULT_CONFIG 864000000 = 896400000"
  by (simp add: priorityTime_def DEFAULT_CONFIG_def setHoursMinutes_def startOfDay_def
      msPerDay_def)

lemma overlapDb_tasks:
  "getTasks overlapDb (Some [OPEN, IN_PROGRESS]) =
     [estimateTask 1 86400000 60, estimateTask 2 172800000 60,
      estimateTask 3 259200000 0, estimateTask 4 345600000 60]"
  by (simp add: getTasks_def overlapDb_def estimateTask_def exampleTask_def)

lemma withPriority_task_fields:
  "estimate_minutes (withPriority t p) = estimate_minutes t"
  "window_start (withPriority t p) = window_start t"
  "window_end (withPriority t p) = window_end t"
  "deadline (withPriority t p) = deadline t"
  "next_due_at (withPriority t p) = next_due_at t"
  "task_id (withPriority t p) = task_id t"
  by (simp_all add: withPriority_def Task.defs)

lemma overlap_candidates:
  "getByPriority 0 0 overlapDb (Some 16) (Some 896400000) =
     [withPriority (estimateTask 1 86400000 60) (Fin (83 / 8)),
      withPriority (estimateTask 2 172800000 60) (Fin (83 / 16)),
      withPriority (estimateTask 3 259200000 0) (Fin (83 / 24)),
      withPriority (estimateTask 4 345600000 60) (Fin (83 / 32))]"
  by (simp add: getByPriority_def overlapDb_tasks estimateTask_priority js_sort_def
      byPriorityDesc_def withPriority_fields js_sub_def js_gt_def)

lemma overlap_actionable:
  "filterActionable 0
     [withPriority (estimateTask 1 86400000 60) (Fin (83 / 8)),
      withPriority (estimateTask 2 172800000 60) (Fin (83 / 16)),
      withPriority (estimateTask 3 259200000 0) (Fin (83 / 24)),
      withPriority (estimateTask 4 345600000 60) (Fin (83 / 32))] 864000000 =
     [withPriority (estimateTask 1 86400000 60) (Fin (83 / 8)),
      withPriority (estimateTask 2 172800000 60) (Fin (83 / 16)),
      withPriority (estimateTask 3 259200000 0) (Fin (83 / 24)),
      withPriority (estimateTask 4 345600000 60) (Fin (83 / 32))]"
  by (simp add: filterActionable_def withPriority_fields withPriority_task_fields
      js_eq_def js_gt_def estimateTask_def exampleTask_def)

lemma overlap_slots:
  "findAvailableSlot [] 480 1020 60 = Some (480, 540)"
  "findAvailableSlot [(480, 540)] 480 1020 60 = Some (540, 600)"
  "findAvailableSlot [(480, 540), (540, 600)] 480 1020 0 = Some (540, 540)"
  "findAvailableSlot [(480, 540), (540, 600), (540, 540)] 480 1020 60 = Some (540, 600)"
  by (simp_all add: findAvailableSlot_def js_sort_def byStart_def js_gt_def)

lemma overlap_sorts:
  "js_sort byStart [(480, 540)] = [(480, 540)]"
  "js_sort byStart [(480, 540), (540, 600)] = [(480, 540), (540, 600)]"
  "js_sort byStart [(480, 540), (540, 600), (540, 540)] = [(480, 540), (540, 600), (540, 540)]"
  "js_sort byStart [(480, 540), (540, 600), (540, 540), (540, 600)] =
     [(480, 540), (540, 600), (540, 540), (540, 600)]"
  by (simp_all add: js_sort_def byStart_def js_gt_def)

lemma overlap_estimates:
  "taskEstimate DEFAULT_CONFIG (withPriority (estimateTask i dl est) p) = est"
  "taskIsDefaultEstimate (withPriority (estimateTask i dl est) p) = (est = 0)"
  "window_start (withPriority (estimateTask i dl est) p) = None"
  "task_id (withPriority (estimateTask i dl est) p) = i"
  by (simp_all add: taskEstimate_def taskIsDefaultEstimate_def withPriority_task_fields
      estimateTask_def exampleTask_def)

lemma overlap_hours:
  "parseTime (workHoursStart DEFAULT_CONFIG) = 480"
  "parseTime (workHoursEnd DEFAULT_CONFIG) = 1020"
  by (simp_all add: parseTime_def DEFAULT_CONFIG_def)

lemma overlap_format:
  "formatTime 480 = (8, 0)" "formatTime 540 = (9, 0)" "formatTime 600 = (10, 0)"
  by (simp_all add: formatTime_def)

lemma overlap_schedule:
  "map (\<lambda>s. (task_id (s_task s), slot_start (s_slot s), slot_end (s_slot s)))
     (fst (snd (scheduleLoop DEFAULT_CONFIG 8
       [withPriority (estimateTask 1 86400000 60) (Fin (83 / 8)),
        withPriority (estimateTask 2 172800000 60) (Fin (83 / 16)),
        withPriority (estimateTask 3 259200000 0) (Fin (83 / 24)),
        withPriority (estimateTask 4 345600000 60) (Fin (83 / 32))] ([], [], [])))) =
   [(1, (8, 0), (9, 0)), (2, (9, 0), (10, 0)), (3, (9, 0), (9, 0)), (4, (9, 0), (10, 0))]"
  by (simp add: overlap_slots overlap_sorts overlap_estimates overlap_hours overlap_format
      Let_def)

text \<open>
  C4. The planner on four tasks with the estimates 60, 60, 0 and 60 minutes, in this order of
  priority, and the default work hours: the second and the fourth task are both scheduled
  from 09:00 to 10:00. The slot of no length of the third task is sorted after the slot of
  the second, which starts at the same minute, and the search for the fourth task then
  takes the end of that last slot as the end of all used time.
\<close>

theorem C4_zero_estimate_overlapping_slots:
  "map (\<lambda>s. (task_id (s_task s), slot_start (s_slot s), slot_end (s_slot s)))
     (scheduled (planDay 0 0 DEFAULT_CONFIG overlapDb 864000000 None None)) =
   [(1, (8, 0), (9, 0)), (2, (9, 0), (10, 0)), (3, (9, 0), (9, 0)), (4, (9, 0), (10, 0))]"
proof -
  have "scheduled (planDay 0 0 DEFAULT_CONFIG overlapDb 864000000 None None) =
      fst (snd (scheduleLoop DEFAULT_CONFIG 8
        [withPriority (estimateTask 1 86400000 60) (Fin (83 / 8)),
         withPriority (estimateTask 2 172800000 60) (Fin (83 / 16)),
         withPriority (estimateTask 3 259200000 0) (Fin (83 / 24)),
         withPriority (estimateTask 4 345600000 60) (Fin (83 / 32))] ([], [], [])))"
    by (simp add: planDay_def overlap_priorityTime overlap_candidates overlap_actionable
        Let_def split_beta del: One_nat_def scheduleLoop.simps)
  then show ?thesis by (simp only: overlap_schedule)
qed

section \<open>Time blocks: what holds of every plan, and of plans without zero estimates\<close>

text \<open>
  Every scheduled slot lies within the work hours and within the window of its task, has
  the length of the estimate, and the scheduled entries are at most \<open>limit\<close>. Where no
  estimate is zero the used slots stay a chain, each ending before the next starts, and
  the scheduled slots are pairwise disjoint. Estimates are natural numbers of minutes
  here; a negative estimate, which the store does not refuse, is not covered.
\<close>

lemma parseTime_nonneg: "0 \<le> parseTime t"
  by (cases t) (simp add: parseTime_def)

lemma parseTime_formatTime:
  assumes "0 \<le> m"
  shows "parseTime (formatTime m) = m"
proof -
  from assms have "0 \<le> m div 60" by simp
  moreover have "0 \<le> m mod 60" by simp
  ultimately show ?thesis by (simp add: parseTime_def formatTime_def)
qed

lemma findGapBetween_range:
  assumes "findGapBetween xs aS aE dur = Some (s, e)"
  shows "e = s + dur \<and> aS \<le> s \<and> e \<le> aE"
  using assms
  by (induction xs aS aE dur rule: findGapBetween.induct)
     (auto simp: Let_def split: if_splits)

lemma findAvailableSlot_range:
  assumes "findAvailableSlot used aS aE dur = Some (s, e)"
  shows "e = s + dur \<and> aS \<le> s \<and> e \<le> aE"
proof (cases "js_sort byStart used")
  case Nil
  with assms show ?thesis
    by (auto simp: findAvailableSlot_def split: if_splits)
next
  case (Cons first rest)
  show ?thesis
  proof (cases "aS < fst first \<and> dur \<le> min (fst first) aE - aS")
    case True
    with assms Cons show ?thesis by (auto simp: findAvailableSlot_def Let_def)
  next
    case False
    show ?thesis
    proof (cases "findGapBetween (first # rest) aS aE dur")
      case (Some slot)
      with assms Cons False have "findGapBetween (first # rest) aS aE dur = Some (s, e)"
        by (auto simp: findAvailableSlot_def Let_def)
      then show ?thesis by (rule findGapBetween_range)
    next
      case None
      with assms Cons False show ?thesis
        by (auto simp: findAvailableSlot_def Let_def split: if_splits)
    qed
  qed
qed

lemma allowed_range:
  assumes "(case (window_start task, window_end task) of
              (Some ws, Some we) \<Rightarrow>
                rangeIntersection workStart workEnd (parseTime ws) (parseTime we)
            | _ \<Rightarrow> Some (workStart, workEnd)) = Some (aS, aE)"
  shows "workStart \<le> aS \<and> aE \<le> workEnd \<and>
         (case (window_start task, window_end task) of
            (Some ws, Some we) \<Rightarrow> parseTime ws \<le> aS \<and> aE \<le> parseTime we
          | _ \<Rightarrow> True)"
  using assms
  by (auto simp: rangeIntersection_def Let_def split: option.splits if_splits)

lemma scheduleLoop_cases:
  assumes "\<not> limit \<le> length sched"
  obtains
    (outside) "(case (window_start task, window_end task) of
                  (Some ws, Some we) \<Rightarrow>
                    rangeIntersection (parseTime (workHoursStart config))
                      (parseTime (workHoursEnd config)) (parseTime ws) (parseTime we)
                | _ \<Rightarrow> Some (parseTime (workHoursStart config),
                             parseTime (workHoursEnd config))) = None"
      "scheduleLoop config limit (task # rest) (used, sched, unsched) =
         scheduleLoop config limit rest
           (used, sched, unsched @ [\<lparr> un_task = task, reason = ''window outside work hours'' \<rparr>])"
  | (nofit) aS aE where
      "(case (window_start task, window_end task) of
          (Some ws, Some we) \<Rightarrow>
            rangeIntersection (parseTime (workHoursStart config))
              (parseTime (workHoursEnd config)) (parseTime ws) (parseTime we)
        | _ \<Rightarrow> Some (parseTime (workHoursStart config),
                     parseTime (workHoursEnd config))) = Some (aS, aE)"
      "findAvailableSlot used aS aE (int (taskEstimate config task)) = None"
      "scheduleLoop config limit (task # rest) (used, sched, unsched) =
         scheduleLoop config limit rest
           (used, sched, unsched @ [\<lparr> un_task = task, reason = ''does not fit'' \<rparr>])"
  | (fit) aS aE s e where
      "(case (window_start task, window_end task) of
          (Some ws, Some we) \<Rightarrow>
            rangeIntersection (parseTime (workHoursStart config))
              (parseTime (workHoursEnd config)) (parseTime ws) (parseTime we)
        | _ \<Rightarrow> Some (parseTime (workHoursStart config),
                     parseTime (workHoursEnd config))) = Some (aS, aE)"
      "findAvailableSlot used aS aE (int (taskEstimate config task)) = Some (s, e)"
      "scheduleLoop config limit (task # rest) (used, sched, unsched) =
         scheduleLoop config limit rest
           (js_sort byStart (used @ [(s, e)]),
            sched @ [\<lparr> s_task = task,
                       s_slot = \<lparr> slot_start = formatTime s, slot_end = formatTime e \<rparr>,
                       estimateMinutes = taskEstimate config task,
                       isDefaultEstimate = taskIsDefaultEstimate task \<rparr>],
            unsched)"
proof -
  let ?allowed = "case (window_start task, window_end task) of
                    (Some ws, Some we) \<Rightarrow>
                      rangeIntersection (parseTime (workHoursStart config))
                        (parseTime (workHoursEnd config)) (parseTime ws) (parseTime we)
                  | _ \<Rightarrow> Some (parseTime (workHoursStart config),
                               parseTime (workHoursEnd config))"
  show ?thesis
  proof (cases ?allowed)
    case None
    with assms show ?thesis by (intro outside) (simp_all add: Let_def)
  next
    case (Some range)
    obtain aS aE where range: "range = (aS, aE)" by (cases range)
    show ?thesis
    proof (cases "findAvailableSlot used aS aE (int (taskEstimate config task))")
      case None
      with assms Some range show ?thesis by (intro nofit [of aS aE]) (simp_all add: Let_def)
    next
      case found: (Some slot)
      obtain s e where slot: "slot = (s, e)" by (cases slot)
      with assms Some range found show ?thesis
        by (intro fit [of aS aE s e]) (simp_all add: Let_def)
    qed
  qed
qed

lemma new_entry_within_hours:
  assumes allowed: "(case (window_start task, window_end task) of
          (Some ws, Some we) \<Rightarrow>
            rangeIntersection (parseTime (workHoursStart config))
              (parseTime (workHoursEnd config)) (parseTime ws) (parseTime we)
        | _ \<Rightarrow> Some (parseTime (workHoursStart config),
                     parseTime (workHoursEnd config))) = Some (aS, aE)"
    and slot: "findAvailableSlot used aS aE (int (taskEstimate config task)) = Some (s, e)"
  shows "slotWithinHours config
           \<lparr> s_task = task,
             s_slot = \<lparr> slot_start = formatTime s, slot_end = formatTime e \<rparr>,
             estimateMinutes = taskEstimate config task,
             isDefaultEstimate = taskIsDefaultEstimate task \<rparr> \<and>
         slotMinutes
           \<lparr> s_task = task,
             s_slot = \<lparr> slot_start = formatTime s, slot_end = formatTime e \<rparr>,
             estimateMinutes = taskEstimate config task,
             isDefaultEstimate = taskIsDefaultEstimate task \<rparr> = (s, e)"
proof -
  from findAvailableSlot_range [OF slot]
  have r: "e = s + int (taskEstimate config task)" "aS \<le> s" "e \<le> aE" by simp_all
  from allowed_range [OF allowed]
  have a: "parseTime (workHoursStart config) \<le> aS" "aE \<le> parseTime (workHoursEnd config)"
    and w: "case (window_start task, window_end task) of
              (Some ws, Some we) \<Rightarrow> parseTime ws \<le> aS \<and> aE \<le> parseTime we
            | _ \<Rightarrow> True"
    by simp_all
  from a(1) r(2) parseTime_nonneg [of "workHoursStart config"] have s0: "0 \<le> s" by simp
  with r(1) have e0: "0 \<le> e" by simp
  from s0 e0 have m: "parseTime (formatTime s) = s" "parseTime (formatTime e) = e"
    by (simp_all add: parseTime_formatTime)
  from r a w m show ?thesis
    by (auto simp: slotWithinHours_def slotMinutes_def split: option.splits)
qed

lemma scheduleLoop_within_hours:
  assumes "scheduleLoop config limit tasks (used, sched, unsched) = (used', sched', unsched')"
    and "\<forall>s \<in> set sched. slotWithinHours config s" and "length sched \<le> limit"
  shows "(\<forall>s \<in> set sched'. slotWithinHours config s) \<and> length sched' \<le> limit"
  using assms
proof (induction tasks arbitrary: used sched unsched)
  case Nil
  then show ?case by simp
next
  case (Cons task rest)
  show ?case
  proof (cases "limit \<le> length sched")
    case True
    with Cons.prems show ?thesis by auto
  next
    case False
    then show ?thesis
    proof (cases rule: scheduleLoop_cases [where limit = limit and sched = sched and task = task
        and config = config and rest = rest and used = used and unsched = unsched])
      case outside
      with Cons.prems(1) Cons.IH Cons.prems(2,3) show ?thesis by metis
    next
      case (nofit aS aE)
      with Cons.prems(1) Cons.IH Cons.prems(2,3) show ?thesis by metis
    next
      case (fit aS aE s e)
      let ?entry = "\<lparr> s_task = task,
                       s_slot = \<lparr> slot_start = formatTime s, slot_end = formatTime e \<rparr>,
                       estimateMinutes = taskEstimate config task,
                       isDefaultEstimate = taskIsDefaultEstimate task \<rparr>"
      from new_entry_within_hours [OF fit(1,2)] Cons.prems(2)
      have all: "\<forall>x \<in> set (sched @ [?entry]). slotWithinHours config x" by auto
      from False have len: "length (sched @ [?entry]) \<le> limit" by simp
      from fit(3) Cons.prems(1) have loop: "scheduleLoop config limit rest
          (js_sort byStart (used @ [(s, e)]), sched @ [?entry], unsched) =
          (used', sched', unsched')" by simp
      show ?thesis by (rule Cons.IH [OF loop all len])
    qed
  qed
qed

lemma byStart_gt: "js_gt (byStart x y) (Fin 0) \<longleftrightarrow> fst y < fst x"
  by (simp add: byStart_def js_gt_def)

lemma set_insert_by: "set (insert_by cmp x ys) = insert x (set ys)"
  by (induction ys) auto

lemma set_foldr_insert_by: "set (foldr (insert_by cmp) xs acc) = set xs \<union> set acc"
  by (induction xs) (auto simp: set_insert_by)

lemma insert_by_chain:
  assumes "sorted_wrt endsBefore ys" and "\<forall>u \<in> set ys. fst u < snd u"
    and "fst x < snd x" and "\<forall>u \<in> set ys. disjointSlots x u"
  shows "sorted_wrt endsBefore (insert_by byStart x ys)"
  using assms
proof (induction ys)
  case Nil
  then show ?case by simp
next
  case (Cons y ys)
  show ?case
  proof (cases "fst y < fst x")
    case True
    from Cons.prems have "disjointSlots x y" "fst y < snd y" by auto
    with True Cons.prems(3) have "endsBefore y x"
      by (auto simp: disjointSlots_def endsBefore_def)
    moreover from Cons have "sorted_wrt endsBefore (insert_by byStart x ys)" by auto
    ultimately show ?thesis
      using True Cons.prems(1) by (auto simp: byStart_gt set_insert_by)
  next
    case False
    from Cons.prems have d: "disjointSlots x y" and py: "fst y < snd y" by auto
    with False Cons.prems(3) have xy: "endsBefore x y"
      by (auto simp: disjointSlots_def endsBefore_def)
    have "endsBefore x z" if "z \<in> set ys" for z
    proof -
      from that Cons.prems(1) have "endsBefore y z" by auto
      with xy py show ?thesis by (auto simp: endsBefore_def)
    qed
    with xy False Cons.prems(1) show ?thesis by (auto simp: byStart_gt)
  qed
qed

lemma foldr_insert_by_chain:
  assumes "sorted_wrt endsBefore xs" and "\<forall>u \<in> set xs. fst u < snd u"
    and "sorted_wrt endsBefore acc" and "\<forall>u \<in> set acc. fst u < snd u"
    and "\<forall>x \<in> set xs. \<forall>u \<in> set acc. disjointSlots x u"
  shows "sorted_wrt endsBefore (foldr (insert_by byStart) xs acc)"
  using assms
proof (induction xs)
  case Nil
  then show ?case by simp
next
  case (Cons x xs)
  then have ih: "sorted_wrt endsBefore (foldr (insert_by byStart) xs acc)" by auto
  have pos: "\<forall>u \<in> set (foldr (insert_by byStart) xs acc). fst u < snd u"
    using Cons.prems by (auto simp: set_foldr_insert_by)
  have "disjointSlots x u" if "u \<in> set (foldr (insert_by byStart) xs acc)" for u
  proof -
    from that have "u \<in> set xs \<or> u \<in> set acc" by (simp add: set_foldr_insert_by)
    with Cons.prems show ?thesis by (auto simp: disjointSlots_def endsBefore_def)
  qed
  with insert_by_chain [OF ih pos] Cons.prems(2) show ?case by simp
qed

lemma js_sort_append_chain:
  assumes "sorted_wrt endsBefore used" and "\<forall>u \<in> set used. fst u < snd u"
    and "fst new < snd new" and "\<forall>u \<in> set used. disjointSlots new u"
  shows "sorted_wrt endsBefore (js_sort byStart (used @ [new]))"
proof -
  have "\<forall>x \<in> set used. \<forall>u \<in> set [new]. disjointSlots x u"
    using assms(4) by (auto simp: disjointSlots_def)
  from foldr_insert_by_chain [OF assms(1,2) _ _ this] assms(3)
  show ?thesis by (simp add: js_sort_def)
qed

lemma js_sort_chain_id:
  assumes "sorted_wrt endsBefore xs" and "\<forall>u \<in> set xs. fst u < snd u"
  shows "js_sort byStart xs = xs"
  using assms
proof (induction xs)
  case Nil
  show ?case by (simp add: js_sort_def)
next
  case (Cons x xs)
  then have "js_sort byStart xs = xs" by simp
  then have step: "js_sort byStart (x # xs) = insert_by byStart x xs"
    by (simp add: js_sort_def)
  show ?case
  proof (cases xs)
    case Nil
    with step show ?thesis by simp
  next
    case (Cons y ys)
    with Cons.prems \<open>sorted_wrt endsBefore (x # xs)\<close> have "endsBefore x y" by simp
    with Cons.prems(2) have "\<not> fst y < fst x" by (auto simp: endsBefore_def)
    with step Cons show ?thesis by (simp add: byStart_gt)
  qed
qed

lemma chain_first:
  assumes "sorted_wrt endsBefore (first # rest)" and "\<forall>u \<in> set (first # rest). fst u < snd u"
    and "u \<in> set (first # rest)"
  shows "fst first \<le> fst u"
  using assms by (auto simp: endsBefore_def)

lemma chain_last:
  assumes "sorted_wrt endsBefore xs" and "\<forall>u \<in> set xs. fst u < snd u" and "u \<in> set xs"
  shows "snd u \<le> snd (last xs)"
  using assms
proof (induction xs)
  case Nil
  then show ?case by simp
next
  case (Cons x xs)
  show ?case
  proof (cases xs)
    case Nil
    with Cons.prems show ?thesis by simp
  next
    case inner: (Cons y ys)
    then have l: "last xs \<in> set xs" by simp
    show ?thesis
    proof (cases "u = x")
      case True
      from Cons.prems(1) l have "endsBefore x (last xs)" by simp
      moreover from Cons.prems(2) l have "fst (last xs) < snd (last xs)" by simp
      ultimately show ?thesis using True inner by (simp add: endsBefore_def)
    next
      case False
      with Cons have "snd u \<le> snd (last xs)" by auto
      with inner show ?thesis by simp
    qed
  qed
qed

lemma findGapBetween_free:
  assumes "findGapBetween xs aS aE dur = Some (s, e)"
    and "sorted_wrt endsBefore xs" and "\<forall>u \<in> set xs. fst u < snd u"
  shows "(\<forall>u \<in> set xs. disjointSlots (s, e) u) \<and> (\<forall>x ys. xs = x # ys \<longrightarrow> snd x \<le> s)"
  using assms
proof (induction xs aS aE dur rule: findGapBetween.induct)
  case (1 a b rest aS aE dur)
  let ?gapStart = "max (snd a) aS"
  let ?gapEnd = "min (fst b) aE"
  show ?case
  proof (cases "dur \<le> ?gapEnd - ?gapStart")
    case True
    with "1.prems"(1) have s: "s = ?gapStart" and e: "e = ?gapStart + dur"
      by (simp_all add: Let_def)
    from True e have eb: "e \<le> fst b" by simp
    have "disjointSlots (s, e) u" if "u \<in> set rest" for u
    proof -
      from that "1.prems"(2) have "endsBefore b u" by simp
      moreover from "1.prems"(3) have "fst b < snd b" by simp
      ultimately show ?thesis using eb by (simp add: disjointSlots_def endsBefore_def)
    qed
    with s eb show ?thesis by (auto simp: disjointSlots_def)
  next
    case False
    with "1.prems"(1) have rec: "findGapBetween (b # rest) aS aE dur = Some (s, e)"
      by (simp add: Let_def)
    from "1.prems"(2,3) have "sorted_wrt endsBefore (b # rest)"
      "\<forall>u \<in> set (b # rest). fst u < snd u" by simp_all
    from "1.IH" [OF refl refl False rec this]
    have free: "\<forall>u \<in> set (b # rest). disjointSlots (s, e) u" and sb: "snd b \<le> s" by simp_all
    from "1.prems"(2,3) have "snd a \<le> fst b" "fst b < snd b" by (simp_all add: endsBefore_def)
    with sb have "snd a \<le> s" by simp
    with free show ?thesis by (auto simp: disjointSlots_def)
  qed
qed simp_all

lemma findAvailableSlot_free:
  assumes slot: "findAvailableSlot used aS aE dur = Some (s, e)"
    and chain: "sorted_wrt endsBefore used" and pos: "\<forall>u \<in> set used. fst u < snd u"
  shows "\<forall>u \<in> set used. disjointSlots (s, e) u"
proof (cases used)
  case Nil
  then show ?thesis by simp
next
  case (Cons first rest)
  from js_sort_chain_id [OF chain pos] Cons have sorted: "js_sort byStart used = first # rest"
    by simp
  from findAvailableSlot_range [OF slot] have e: "e = s + dur" by simp
  show ?thesis
  proof (cases "aS < fst first \<and> dur \<le> min (fst first) aE - aS")
    case True
    with slot sorted have "s = aS" "e \<le> fst first"
      by (auto simp: findAvailableSlot_def Let_def)
    moreover have "fst first \<le> fst u" if "u \<in> set used" for u
      using chain_first [of first rest u] chain pos that Cons by simp
    ultimately show ?thesis by (fastforce simp: disjointSlots_def)
  next
    case False
    show ?thesis
    proof (cases "findGapBetween (first # rest) aS aE dur")
      case (Some gap)
      with slot sorted False have "findGapBetween (first # rest) aS aE dur = Some (s, e)"
        by (auto simp: findAvailableSlot_def Let_def)
      from findGapBetween_free [OF this] chain pos Cons show ?thesis by simp
    next
      case None
      with slot sorted False have "s = max (snd (last (first # rest))) aS"
        by (auto simp: findAvailableSlot_def Let_def split: if_splits)
      then have "snd (last used) \<le> s" using Cons by simp
      moreover have "snd u \<le> snd (last used)" if "u \<in> set used" for u
        using chain_last [OF chain pos that] .
      ultimately show ?thesis by (fastforce simp: disjointSlots_def)
    qed
  qed
qed

lemma scheduleLoop_disjoint:
  assumes "scheduleLoop config limit tasks (used, sched, unsched) = (used', sched', unsched')"
    and "\<forall>task \<in> set tasks. 0 < taskEstimate config task"
    and "sorted_wrt endsBefore used" and "\<forall>u \<in> set used. fst u < snd u"
    and "set used = slotMinutes ` set sched"
    and "sorted_wrt disjointSlots (map slotMinutes sched)"
  shows "sorted_wrt disjointSlots (map slotMinutes sched')"
  using assms
proof (induction tasks arbitrary: used sched unsched)
  case Nil
  then show ?case by simp
next
  case (Cons task rest)
  show ?case
  proof (cases "limit \<le> length sched")
    case True
    with Cons.prems show ?thesis by auto
  next
    case False
    from Cons.prems(2) have restpos: "\<forall>task \<in> set rest. 0 < taskEstimate config task" by simp
    from False show ?thesis
    proof (cases rule: scheduleLoop_cases [where limit = limit and sched = sched and task = task
        and config = config and rest = rest and used = used and unsched = unsched])
      case outside
      with Cons.prems(1) have "scheduleLoop config limit rest
          (used, sched, unsched @ [\<lparr> un_task = task, reason = ''window outside work hours'' \<rparr>]) =
          (used', sched', unsched')" by simp
      from Cons.IH [OF this restpos Cons.prems(3-6)] show ?thesis .
    next
      case (nofit aS aE)
      with Cons.prems(1) have "scheduleLoop config limit rest
          (used, sched, unsched @ [\<lparr> un_task = task, reason = ''does not fit'' \<rparr>]) =
          (used', sched', unsched')" by simp
      from Cons.IH [OF this restpos Cons.prems(3-6)] show ?thesis .
    next
      case (fit aS aE s e)
      let ?entry = "\<lparr> s_task = task,
                       s_slot = \<lparr> slot_start = formatTime s, slot_end = formatTime e \<rparr>,
                       estimateMinutes = taskEstimate config task,
                       isDefaultEstimate = taskIsDefaultEstimate task \<rparr>"
      from new_entry_within_hours [OF fit(1,2)] have minutes: "slotMinutes ?entry = (s, e)"
        by simp
      from findAvailableSlot_range [OF fit(2)] Cons.prems(2) have len: "fst (s, e) < snd (s, e)"
        by simp
      from findAvailableSlot_free [OF fit(2) Cons.prems(3,4)]
      have free: "\<forall>u \<in> set used. disjointSlots (s, e) u" .
      have chain': "sorted_wrt endsBefore (js_sort byStart (used @ [(s, e)]))"
        by (rule js_sort_append_chain [OF Cons.prems(3,4) len free])
      have pos': "\<forall>u \<in> set (js_sort byStart (used @ [(s, e)])). fst u < snd u"
        using Cons.prems(4) len by (simp add: set_js_sort)
      have set': "set (js_sort byStart (used @ [(s, e)])) = slotMinutes ` set (sched @ [?entry])"
        using Cons.prems(5) minutes by (simp add: set_js_sort)
      have "\<forall>x \<in> set (map slotMinutes sched). disjointSlots x (s, e)"
        using free Cons.prems(5) by (auto simp: disjointSlots_def)
      with Cons.prems(6) minutes
      have dis': "sorted_wrt disjointSlots (map slotMinutes (sched @ [?entry]))"
        by (simp add: sorted_wrt_append)
      from fit(3) Cons.prems(1) have loop: "scheduleLoop config limit rest
          (js_sort byStart (used @ [(s, e)]), sched @ [?entry], unsched) =
          (used', sched', unsched')" by simp
      show ?thesis by (rule Cons.IH [OF loop restpos chain' pos' set' dis'])
    qed
  qed
qed

lemma set_getTasks: "set (getTasks db flt) \<subseteq> set (db_tasks db)"
  by (auto simp: getTasks_def split: option.splits)

lemma withPriority_estimate: "estimate_minutes (withPriority t p) = estimate_minutes t"
  by (simp add: withPriority_def Task.defs)

lemma actionable_estimates:
  assumes "0 < defaultEstimateMinutes config"
    and "\<forall>t \<in> set (db_tasks db). estimate_minutes t \<noteq> Some 0"
    and "e \<in> set (filterActionable tz (getByPriority clk tz db limit (Some pt)) date)"
  shows "0 < taskEstimate config e"
proof -
  from assms(3) have "e \<in> set (getByPriority clk tz db limit (Some pt))"
    by (simp add: filterActionable_def)
  with set_getByPriority [of clk tz db limit pt] have "e \<in> set (prioritized clk tz db pt)"
    by blast
  then obtain t where "t \<in> set (getTasks db (Some [OPEN, IN_PROGRESS]))"
    and e: "e = withPriority t (calculateTaskPriority clk tz db t pt)"
    by (auto simp: prioritized_def)
  with set_getTasks [of db] assms(2) have "estimate_minutes t \<noteq> Some 0" by blast
  with assms(1) e show ?thesis
    by (cases "estimate_minutes t") (simp_all add: taskEstimate_def withPriority_estimate)
qed

lemma planDay_time_blocks:
  assumes "optBlocks \<noteq> Some False"
  shows "(\<forall>s \<in> set (scheduled (planDay clk tz config db date optLimit optBlocks)).
            slotWithinHours config s) \<and>
         length (scheduled (planDay clk tz config db date optLimit optBlocks))
           \<le> (case optLimit of Some n \<Rightarrow> n | None \<Rightarrow> 8) \<and>
         (0 < defaultEstimateMinutes config \<and>
          (\<forall>t \<in> set (db_tasks db). estimate_minutes t \<noteq> Some 0) \<longrightarrow>
            sorted_wrt disjointSlots
              (map slotMinutes (scheduled (planDay clk tz config db date optLimit optBlocks))))"
proof -
  let ?limit = "case optLimit of Some n \<Rightarrow> n | None \<Rightarrow> 8"
  let ?tasks = "getByPriority clk tz db (Some (?limit * 2)) (Some (priorityTime tz config date))"
  let ?act = "filterActionable tz ?tasks date"
  obtain used' sched' unsched' where
    loop: "scheduleLoop config ?limit ?act ([], [], []) = (used', sched', unsched')"
    by (cases "scheduleLoop config ?limit ?act ([], [], [])") auto
  from assms have blocks: "(case optBlocks of Some b \<Rightarrow> b | None \<Rightarrow> True)"
    by (cases optBlocks) auto
  with loop have sched: "scheduled (planDay clk tz config db date optLimit optBlocks) = sched'"
    by (simp add: planDay_def Let_def)
  from scheduleLoop_within_hours [OF loop]
  have within: "(\<forall>s \<in> set sched'. slotWithinHours config s) \<and> length sched' \<le> ?limit"
    by simp
  have disjoint: "sorted_wrt disjointSlots (map slotMinutes sched')"
    if "0 < defaultEstimateMinutes config"
      and "\<forall>t \<in> set (db_tasks db). estimate_minutes t \<noteq> Some 0"
  proof -
    from that have "\<forall>task \<in> set ?act. 0 < taskEstimate config task"
      using actionable_estimates by blast
    from scheduleLoop_disjoint [OF loop this] show ?thesis by simp
  qed
  from within disjoint show ?thesis unfolding sched by blast
qed

end
